theory Spec2Isabelle
  imports Complex_Main "HOL-Library.Monad_Syntax" "HOL-Library.AList" "HOL-Library.Multiset"
begin

section \<open>Data model of heredity.py\<close>

text \<open>
  Python floats are modelled as exact reals: every statement below is about the
  arithmetic the program is meant to perform, not about rounding.  A Python exception
  (\<open>KeyError\<close>, \<open>UnboundLocalError\<close>) is the value \<open>None\<close> of an option type.

  A Python \<open>dict\<close> is an association list in insertion order (\<open>map_of\<close> reads a key,
  \<open>AList.update\<close> stores one); a well-formed dictionary has distinct keys.  A Python
  \<open>set\<close> of names is a duplicate-free list; its iteration order, which Python leaves
  unspecified, is the list order.  A value that is a name or Python's \<open>None\<close> (a parent
  field) is a \<open>string option\<close>.
\<close>

record person =
  name :: string
  mother :: "string option"
  father :: "string option"
  trait :: "bool option"

type_synonym people = "(string \<times> person) list"

text \<open>One entry of \<open>probabilities\<close>: the dictionaries under the keys "gene" and "trait".\<close>

record dists =
  gene_dist :: "(nat \<times> real) list"
  trait_dist :: "(bool \<times> real) list"

type_synonym probabilities = "(string \<times> dists) list"

subsection \<open>The constant table PROBS (lines 6-38)\<close>

definition PROBS_gene :: "(nat \<times> real) list" where
  "PROBS_gene = [(2, 0.01), (1, 0.03), (0, 0.96)]"

definition PROBS_trait :: "(nat \<times> (bool \<times> real) list) list" where
  "PROBS_trait =
     [(2, [(True, 0.65), (False, 0.35)]),
      (1, [(True, 0.56), (False, 0.44)]),
      (0, [(True, 0.01), (False, 0.99)])]"

definition PROBS_mutation :: real where
  "PROBS_mutation = 0.01"

subsection \<open>Loops that may raise\<close>

text \<open>A \<open>for\<close> loop over a list whose body may raise: the first failure ends the loop.\<close>

fun foldM :: "('a \<Rightarrow> 's \<Rightarrow> 's option) \<Rightarrow> 'a list \<Rightarrow> 's \<Rightarrow> 's option" where
  "foldM f [] s = Some s"
| "foldM f (x # xs) s = Option.bind (f x s) (foldM f xs)"

subsection \<open>powerset (lines 120-129)\<close>

text \<open>\<open>itertools.combinations(s, r)\<close>: the \<open>r\<close>-element subsequences, in index order.\<close>

fun combinations :: "'a list \<Rightarrow> nat \<Rightarrow> 'a list list" where
  "combinations xs 0 = [[]]"
| "combinations [] (Suc r) = []"
| "combinations (x # xs) (Suc r) =
     map ((#) x) (combinations xs r) @ combinations xs (Suc r)"

definition powerset :: "'a list \<Rightarrow> 'a list list" where
  "powerset s = concat (map (combinations s) [0 ..< length s + 1])"

text \<open>The set difference \<open>names - one_gene\<close> of line 79.\<close>

definition set_minus :: "'a list \<Rightarrow> 'a list \<Rightarrow> 'a list" where
  "set_minus xs ys = filter (\<lambda>x. x \<notin> set ys) xs"

subsection \<open>get_number_genes and prob_of_passing (lines 131-145)\<close>

text \<open>
  The first argument is a name or Python's \<open>None\<close> (an absent parent), which is a
  member of no set of names.
\<close>

definition get_number_genes :: "string option \<Rightarrow> string list \<Rightarrow> string list \<Rightarrow> nat" where
  "get_number_genes person one_gene two_genes =
     (if person \<in> Some ` set one_gene then 1
      else if person \<in> Some ` set two_genes then 2
      else 0)"

definition prob_of_passing :: "nat \<Rightarrow> real" where
  "prob_of_passing numGenes =
     (if numGenes = 0 then PROBS_mutation
      else if numGenes = 1 then 0.5
      else 1 - PROBS_mutation)"

subsection \<open>joint_probability (lines 151-192)\<close>

text \<open>
  Lines 177-182: three \<open>if\<close> statements without \<open>else\<close>, each assigning the local
  variable \<open>probGenes\<close>.  The first argument is the variable before them (\<open>None\<close> when
  it is still unbound), the result is the variable after them.
\<close>

definition child_genes :: "real option \<Rightarrow> nat \<Rightarrow> real \<Rightarrow> real \<Rightarrow> real option" where
  "child_genes probGenes ownGenes fatherProb motherProb =
     (let probGenes = (if ownGenes = 0
                       then Some ((1 - fatherProb) * (1 - motherProb)) else probGenes);
          probGenes = (if ownGenes = 1
                       then Some (motherProb * (1 - fatherProb) + fatherProb * (1 - motherProb))
                       else probGenes);
          probGenes = (if ownGenes = 2
                       then Some (motherProb * fatherProb) else probGenes)
      in probGenes)"

text \<open>
  The body of the loop of lines 162-190 over \<open>people.items()\<close>.  The state is the pair of the running product
  \<open>probJoint\<close> and the local variable \<open>probGenes\<close>, which survives from one
  iteration to the next.
\<close>

definition joint_step ::
  "string list \<Rightarrow> string list \<Rightarrow> string list \<Rightarrow> person \<Rightarrow> real \<times> real option
     \<Rightarrow> (real \<times> real option) option" where
  "joint_step one_gene two_genes have_trait person st =
     (case st of (probJoint, probGenes) \<Rightarrow>
        let ownGenes = get_number_genes (Some (name person)) one_gene two_genes in
        do {
          probGenes \<leftarrow>
            (if mother person = None \<and> father person = None
             then do { g \<leftarrow> map_of PROBS_gene ownGenes; Some (Some g) }
             else
               let fatherGenes = get_number_genes (father person) one_gene two_genes;
                   motherGenes = get_number_genes (mother person) one_gene two_genes;
                   fatherProb = prob_of_passing fatherGenes;
                   motherProb = prob_of_passing motherGenes
               in Some (child_genes probGenes ownGenes fatherProb motherProb));
          row \<leftarrow> map_of PROBS_trait ownGenes;
          probTrait \<leftarrow>
            (if name person \<in> set have_trait then map_of row True else map_of row False);
          g \<leftarrow> probGenes;
          Some (probJoint * (g * probTrait), probGenes)
        })"

definition joint_probability ::
  "people \<Rightarrow> string list \<Rightarrow> string list \<Rightarrow> string list \<Rightarrow> real option" where
  "joint_probability people one_gene two_genes have_trait =
     do {
       (probJoint, probGenes) \<leftarrow>
         foldM (\<lambda>(key, person). joint_step one_gene two_genes have_trait person)
           people (1, None);
       Some probJoint
     }"

subsection \<open>update (lines 195-210)\<close>

definition update_step ::
  "string list \<Rightarrow> string list \<Rightarrow> string list \<Rightarrow> real \<Rightarrow> string \<Rightarrow> probabilities
     \<Rightarrow> probabilities option" where
  "update_step one_gene two_genes have_trait p person probabilities =
     (let ownGenes = get_number_genes (Some person) one_gene two_genes;
          has_trait = (person \<in> set have_trait)
      in do {
        entry \<leftarrow> map_of probabilities person;
        entry \<leftarrow>
          (if has_trait
           then do { v \<leftarrow> map_of (trait_dist entry) True;
                     Some (entry\<lparr>trait_dist := AList.update True (v + p) (trait_dist entry)\<rparr>) }
           else do { v \<leftarrow> map_of (trait_dist entry) False;
                     Some (entry\<lparr>trait_dist := AList.update False (v + p) (trait_dist entry)\<rparr>) });
        v \<leftarrow> map_of (gene_dist entry) ownGenes;
        Some (AList.update person
                (entry\<lparr>gene_dist := AList.update ownGenes (v + p) (gene_dist entry)\<rparr>)
                probabilities)
      })"

definition update ::
  "probabilities \<Rightarrow> string list \<Rightarrow> string list \<Rightarrow> string list \<Rightarrow> real
     \<Rightarrow> probabilities option" where
  "update probabilities one_gene two_genes have_trait p =
     foldM (update_step one_gene two_genes have_trait p) (map fst probabilities) probabilities"

subsection \<open>normalize (lines 213-224)\<close>

text \<open>
  \<open>norm_dict\<close> divides every value by the total.  With a zero total numpy's division
  yields no number; the model reports that as the failure \<open>None\<close>.  An empty
  dictionary is returned as it is (nothing is divided).
\<close>

definition norm_dict :: "('a \<times> real) list \<Rightarrow> ('a \<times> real) list option" where
  "norm_dict p =
     (let total = sum_list (map snd p)
      in if p \<noteq> [] \<and> total = 0 then None
         else Some (map (\<lambda>(a, b). (a, b / total)) p))"

definition normalize_step :: "string \<Rightarrow> probabilities \<Rightarrow> probabilities option" where
  "normalize_step person probabilities =
     do {
       entry \<leftarrow> map_of probabilities person;
       g \<leftarrow> norm_dict (gene_dist entry);
       let entry = entry\<lparr>gene_dist := g\<rparr>;
       t \<leftarrow> norm_dict (trait_dist entry);
       Some (AList.update person (entry\<lparr>trait_dist := t\<rparr>) probabilities)
     }"

definition normalize :: "probabilities \<Rightarrow> probabilities option" where
  "normalize probabilities = foldM normalize_step (map fst probabilities) probabilities"

subsection \<open>main (lines 41-86)\<close>

text \<open>The dictionary comprehension of lines 49-62.\<close>

definition initial_probabilities :: "people \<Rightarrow> probabilities" where
  "initial_probabilities people =
     map (\<lambda>person. (person, \<lparr>gene_dist = [(2, 0), (1, 0), (0, 0)],
                             trait_dist = [(True, 0), (False, 0)]\<rparr>))
       (map fst people)"

text \<open>
  Lines 69-73: \<open>any\<close> over the names, stopping at the first person whose known trait
  differs from membership in \<open>have_trait\<close>.
\<close>

fun fails_evidence :: "people \<Rightarrow> string list \<Rightarrow> string list \<Rightarrow> bool option" where
  "fails_evidence people have_trait [] = Some False"
| "fails_evidence people have_trait (person # names) =
     do {
       entry \<leftarrow> map_of people person;
       if trait entry \<noteq> None \<and> trait entry \<noteq> Some (person \<in> set have_trait)
       then Some True
       else fails_evidence people have_trait names
     }"

text \<open>
  Lines 64-83: the three nested loops, up to the call of \<open>normalize\<close>.  The set
  \<open>names = set(people)\<close> is iterated in dictionary order; \<open>continue\<close> leaves
  \<open>probabilities\<close> as it is.
\<close>

definition main_loop :: "people \<Rightarrow> probabilities option" where
  "main_loop people =
     (let probabilities = initial_probabilities people;
          names = map fst people
      in foldM (\<lambda>have_trait probabilities.
           do {
             fails \<leftarrow> fails_evidence people have_trait names;
             if fails then Some probabilities
             else
               foldM (\<lambda>one_gene probabilities.
                 foldM (\<lambda>two_genes probabilities.
                   do {
                     p \<leftarrow> joint_probability people one_gene two_genes have_trait;
                     update probabilities one_gene two_genes have_trait p
                   })
                   (powerset (set_minus names one_gene)) probabilities)
                 (powerset names) probabilities
           })
           (powerset names) probabilities)"

definition main :: "people \<Rightarrow> probabilities option" where
  "main people = do { probabilities \<leftarrow> main_loop people; normalize probabilities }"

section \<open>Closed forms of the table lookups\<close>

text \<open>
  The functions of this section are total and never fail.  They are what the lookups in
  \<open>PROBS\<close> and the three assignments of lines 177-182 return for a gene count that
  \<open>get_number_genes\<close> can produce (lemmas \<open>map_of_PROBS_gene\<close>, \<open>child_genes_eq\<close>,
  \<open>map_of_PROBS_trait\<close> and \<open>joint_step_eq\<close> below); the proofs work with them.
\<close>

definition gene_prior :: "nat \<Rightarrow> real" where
  "gene_prior g = (if g = 0 then 0.96 else if g = 1 then 0.03 else 0.01)"

definition child_prob :: "nat \<Rightarrow> real \<Rightarrow> real \<Rightarrow> real" where
  "child_prob g fatherProb motherProb =
     (if g = 0 then (1 - fatherProb) * (1 - motherProb)
      else if g = 1 then motherProb * (1 - fatherProb) + fatherProb * (1 - motherProb)
      else motherProb * fatherProb)"

definition trait_prob :: "nat \<Rightarrow> bool \<Rightarrow> real" where
  "trait_prob g b =
     (if g = 0 then (if b then 0.01 else 0.99)
      else if g = 1 then (if b then 0.56 else 0.44)
      else (if b then 0.65 else 0.35))"

definition genes_factor :: "person \<Rightarrow> string list \<Rightarrow> string list \<Rightarrow> real" where
  "genes_factor person one_gene two_genes =
     (if mother person = None \<and> father person = None
      then gene_prior (get_number_genes (Some (name person)) one_gene two_genes)
      else child_prob (get_number_genes (Some (name person)) one_gene two_genes)
             (prob_of_passing (get_number_genes (father person) one_gene two_genes))
             (prob_of_passing (get_number_genes (mother person) one_gene two_genes)))"

definition person_factor :: "person \<Rightarrow> string list \<Rightarrow> string list \<Rightarrow> string list \<Rightarrow> real" where
  "person_factor person one_gene two_genes have_trait =
     genes_factor person one_gene two_genes *
     trait_prob (get_number_genes (Some (name person)) one_gene two_genes)
       (name person \<in> set have_trait)"


section \<open>The gene-count probability as the specification words it\<close>

text \<open>
  The gene assignment of a hypothesis (section 3 of the specification): the persons of
  the first set have one copy, those of the second set two, everybody else none.
\<close>

definition gene_assignment :: "string list \<Rightarrow> string list \<Rightarrow> string \<Rightarrow> nat" where
  "gene_assignment one_gene two_genes q =
     (if q \<in> set one_gene then 1 else if q \<in> set two_genes then 2 else 0)"

text \<open>
  Written from the specification (section 4.2), not from the code, to be compared with
  what \<open>joint_step\<close> computes.  A parent with 0, 1 or 2 copies passes the gene with
  probability mutation rate, 0.5, or 1 - mutation rate; the specification gives no rule
  for another count (\<open>None\<close>).
\<close>

definition spec_passing :: "nat \<Rightarrow> real option" where
  "spec_passing copies =
     (if copies = 0 then Some PROBS_mutation
      else if copies = 1 then Some 0.5
      else if copies = 2 then Some (1 - PROBS_mutation)
      else None)"

text \<open>
  The child's probability of 0, 1 or 2 copies from the two passing probabilities.
\<close>

definition spec_child_probability :: "nat \<Rightarrow> real \<Rightarrow> real \<Rightarrow> real option" where
  "spec_child_probability copies father_pass mother_pass =
     (if copies = 0 then Some ((1 - father_pass) * (1 - mother_pass))
      else if copies = 1
        then Some (mother_pass * (1 - father_pass) + father_pass * (1 - mother_pass))
      else if copies = 2 then Some (mother_pass * father_pass)
      else None)"

text \<open>
  A person with no recorded parents has the entry of the unconditional prior table; a
  person with two recorded parents has the child's probability, the parents' counts read
  from the same gene assignment.  The specification has no rule for a person with one
  recorded parent (\<open>None\<close>).
\<close>

definition spec_gene_probability :: "person \<Rightarrow> (string \<Rightarrow> nat) \<Rightarrow> real option" where
  "spec_gene_probability person genes =
     (case (mother person, father person) of
        (None, None) \<Rightarrow> map_of PROBS_gene (genes (name person))
      | (Some m, Some f) \<Rightarrow>
          do {
            father_pass \<leftarrow> spec_passing (genes f);
            mother_pass \<leftarrow> spec_passing (genes m);
            spec_child_probability (genes (name person)) father_pass mother_pass
          }
      | _ \<Rightarrow> None)"


section \<open>The accumulator in closed form\<close>

text \<open>
  The shape of \<open>probabilities\<close> that \<open>main\<close> builds and \<open>update\<close> keeps: distinct
  person keys, and for each person the gene buckets 2, 1, 0 and the trait buckets
  \<open>True\<close>, \<open>False\<close>.
\<close>

definition wf_probabilities :: "probabilities \<Rightarrow> bool" where
  "wf_probabilities probabilities =
     (distinct (map fst probabilities) \<and>
      list_all (\<lambda>(person, entry).
          map fst (gene_dist entry) = [2, 1, 0] \<and> map fst (trait_dist entry) = [True, False])
        probabilities)"

text \<open>What one call of \<open>update\<close> does to the entry of one person.\<close>

definition add_to_entry ::
  "string list \<Rightarrow> string list \<Rightarrow> string list \<Rightarrow> real \<Rightarrow> string \<Rightarrow> dists \<Rightarrow> dists" where
  "add_to_entry one_gene two_genes have_trait p person entry =
     \<lparr>gene_dist =
        map (\<lambda>(g, v). (g, if g = get_number_genes (Some person) one_gene two_genes
                           then v + p else v)) (gene_dist entry),
      trait_dist =
        map (\<lambda>(b, v). (b, if b = (person \<in> set have_trait) then v + p else v))
          (trait_dist entry)\<rparr>"

text \<open>Reading one bucket: \<open>probabilities[person]["gene"][g]\<close> and \<open>probabilities[person]["trait"][b]\<close>.\<close>

definition gene_bucket :: "probabilities \<Rightarrow> string \<Rightarrow> nat \<Rightarrow> real option" where
  "gene_bucket probabilities person g =
     Option.bind (map_of probabilities person) (\<lambda>entry. map_of (gene_dist entry) g)"

definition trait_bucket :: "probabilities \<Rightarrow> string \<Rightarrow> bool \<Rightarrow> real option" where
  "trait_bucket probabilities person b =
     Option.bind (map_of probabilities person) (\<lambda>entry. map_of (trait_dist entry) b)"

text \<open>The part of \<open>update_step\<close> after the entry has been read.\<close>

definition update_entry ::
  "string list \<Rightarrow> string list \<Rightarrow> string list \<Rightarrow> real \<Rightarrow> string \<Rightarrow> dists \<Rightarrow> dists option" where
  "update_entry one_gene two_genes have_trait p person entry =
     (let ownGenes = get_number_genes (Some person) one_gene two_genes;
          has_trait = (person \<in> set have_trait)
      in do {
        entry \<leftarrow>
          (if has_trait
           then do { v \<leftarrow> map_of (trait_dist entry) True;
                     Some (entry\<lparr>trait_dist := AList.update True (v + p) (trait_dist entry)\<rparr>) }
           else do { v \<leftarrow> map_of (trait_dist entry) False;
                     Some (entry\<lparr>trait_dist := AList.update False (v + p) (trait_dist entry)\<rparr>) });
        v \<leftarrow> map_of (gene_dist entry) ownGenes;
        Some (entry\<lparr>gene_dist := AList.update ownGenes (v + p) (gene_dist entry)\<rparr>)
      })"


section \<open>The hypotheses the loops of main examine\<close>

text \<open>
  The definitions of this section name what the three nested loops of \<open>main\<close> do.
  Lemma \<open>main_loop_flat\<close> below proves that \<open>main_loop\<close> is the fold of
  \<open>score_and_update\<close> over \<open>hypotheses\<close>.

  \<open>gene_splits\<close>: the pairs \<open>(one_gene, two_genes)\<close> the loops of lines 78-79 visit, in
  loop order.
\<close>

definition gene_splits :: "string list \<Rightarrow> (string list \<times> string list) list" where
  "gene_splits names =
     concat (map (\<lambda>one_gene. map (\<lambda>two_genes. (one_gene, two_genes))
                                (powerset (set_minus names one_gene)))
               (powerset names))"

text \<open>A candidate \<open>have_trait\<close> that passes the test of lines 69-75 (no \<open>continue\<close>).\<close>

definition admissible :: "people \<Rightarrow> string list \<Rightarrow> bool" where
  "admissible people have_trait =
     (fails_evidence people have_trait (map fst people) = Some False)"

text \<open>The hypotheses for which lines 82-83 run, in loop order.\<close>

definition hypotheses :: "people \<Rightarrow> (string list \<times> string list \<times> string list) list" where
  "hypotheses people =
     concat (map (\<lambda>have_trait. map (\<lambda>(one_gene, two_genes). (one_gene, two_genes, have_trait))
                                  (gene_splits (map fst people)))
               (filter (admissible people) (powerset (map fst people))))"

text \<open>Lines 82-83, the body of the innermost loop; \<open>accumulate\<close> runs it over a list.\<close>

definition score_and_update ::
  "people \<Rightarrow> string list \<times> string list \<times> string list \<Rightarrow> probabilities \<Rightarrow> probabilities option" where
  "score_and_update people hyp probabilities =
     (case hyp of (one_gene, two_genes, have_trait) \<Rightarrow>
        do {
          p \<leftarrow> joint_probability people one_gene two_genes have_trait;
          update probabilities one_gene two_genes have_trait p
        })"

definition accumulate ::
  "people \<Rightarrow> (string list \<times> string list \<times> string list) list \<Rightarrow> probabilities
     \<Rightarrow> probabilities option" where
  "accumulate people hyps probabilities = foldM (score_and_update people) hyps probabilities"

text \<open>
  The value \<open>joint_probability\<close> returns (lemma \<open>joint_probability_joint\<close>), and what
  the buckets of a person have received after the hypotheses of a list were scored: the
  mass of the hypotheses giving the person \<open>g\<close> copies, of those giving trait value
  \<open>b\<close>, and of all of them.
\<close>

definition joint :: "people \<Rightarrow> string list \<Rightarrow> string list \<Rightarrow> string list \<Rightarrow> real" where
  "joint people one_gene two_genes have_trait =
     prod_list (map (\<lambda>(key, person). person_factor person one_gene two_genes have_trait) people)"

definition gene_mass ::
  "people \<Rightarrow> (string list \<times> string list \<times> string list) list \<Rightarrow> string \<Rightarrow> nat \<Rightarrow> real" where
  "gene_mass people hyps person g =
     sum_list (map (\<lambda>(one_gene, two_genes, have_trait).
                 if get_number_genes (Some person) one_gene two_genes = g
                 then joint people one_gene two_genes have_trait else 0) hyps)"

definition trait_mass ::
  "people \<Rightarrow> (string list \<times> string list \<times> string list) list \<Rightarrow> string \<Rightarrow> bool \<Rightarrow> real" where
  "trait_mass people hyps person b =
     sum_list (map (\<lambda>(one_gene, two_genes, have_trait).
                 if (person \<in> set have_trait) = b
                 then joint people one_gene two_genes have_trait else 0) hyps)"

definition total_mass ::
  "people \<Rightarrow> (string list \<times> string list \<times> string list) list \<Rightarrow> real" where
  "total_mass people hyps =
     sum_list (map (\<lambda>(one_gene, two_genes, have_trait).
                 joint people one_gene two_genes have_trait) hyps)"

text \<open>An entry after the hypotheses of a list were added to it.\<close>

definition add_mass ::
  "people \<Rightarrow> (string list \<times> string list \<times> string list) list \<Rightarrow> string \<Rightarrow> dists \<Rightarrow> dists" where
  "add_mass people hyps person entry =
     \<lparr>gene_dist = map (\<lambda>(g, v). (g, v + gene_mass people hyps person g)) (gene_dist entry),
      trait_dist = map (\<lambda>(b, v). (b, v + trait_mass people hyps person b)) (trait_dist entry)\<rparr>"

text \<open>\<open>people[person]["trait"]\<close>: the observed trait of a person, if any.\<close>

definition observed :: "people \<Rightarrow> string \<Rightarrow> bool option" where
  "observed people person = Option.bind (map_of people person) trait"

text \<open>The part of \<open>normalize_step\<close> after the entry has been read.\<close>

definition normalize_entry :: "dists \<Rightarrow> dists option" where
  "normalize_entry entry =
     do {
       g \<leftarrow> norm_dict (gene_dist entry);
       let entry = entry\<lparr>gene_dist := g\<rparr>;
       t \<leftarrow> norm_dict (trait_dist entry);
       Some (entry\<lparr>trait_dist := t\<rparr>)
     }"

text \<open>An entry with each of its two distributions divided by its own total.\<close>

definition scale_entry :: "dists \<Rightarrow> dists" where
  "scale_entry entry =
     \<lparr>gene_dist = map (\<lambda>(a, b). (a, b / sum_list (map snd (gene_dist entry)))) (gene_dist entry),
      trait_dist = map (\<lambda>(a, b). (a, b / sum_list (map snd (trait_dist entry)))) (trait_dist entry)\<rparr>"

text \<open>The entry of a person after the hypotheses of a list were added to the zero entry.\<close>

definition mass_entry ::
  "people \<Rightarrow> (string list \<times> string list \<times> string list) list \<Rightarrow> string \<Rightarrow> dists" where
  "mass_entry people hyps person =
     \<lparr>gene_dist = [(2, gene_mass people hyps person 2), (1, gene_mass people hyps person 1),
                   (0, gene_mass people hyps person 0)],
      trait_dist = [(True, trait_mass people hyps person True),
                    (False, trait_mass people hyps person False)]\<rparr>"


section \<open>Total probability: definitions\<close>











section \<open>The joint probability in closed form\<close>

lemma get_number_genes_cases:
  "get_number_genes x one_gene two_genes = 0 \<or>
   get_number_genes x one_gene two_genes = 1 \<or>
   get_number_genes x one_gene two_genes = 2"
  by (simp add: get_number_genes_def)

lemma get_number_genes_le2: "get_number_genes x one_gene two_genes \<le> 2"
  by (simp add: get_number_genes_def)

lemma map_of_PROBS_gene:
  "g \<le> 2 \<Longrightarrow> map_of PROBS_gene g = Some (gene_prior g)"
  by (auto simp: PROBS_gene_def gene_prior_def)

lemma child_genes_eq:
  "g \<le> 2 \<Longrightarrow> child_genes prev g fp mp = Some (child_prob g fp mp)"
  by (auto simp: child_genes_def child_prob_def Let_def)

lemma map_of_PROBS_trait:
  "g \<le> 2 \<Longrightarrow> Option.bind (map_of PROBS_trait g) (\<lambda>row. map_of row b) = Some (trait_prob g b)"
  by (cases b) (auto simp: PROBS_trait_def trait_prob_def)

lemma joint_step_eq:
  "joint_step one_gene two_genes have_trait person (probJoint, probGenes) =
     Some (probJoint * person_factor person one_gene two_genes have_trait,
           Some (genes_factor person one_gene two_genes))"
proof -
  let ?g = "get_number_genes (Some (name person)) one_gene two_genes"
  have g: "?g \<le> 2" by (rule get_number_genes_le2)
  have t: "\<And>b. Option.bind (map_of PROBS_trait ?g) (\<lambda>row. map_of row b) = Some (trait_prob ?g b)"
    using g by (rule map_of_PROBS_trait)
  obtain row where row: "map_of PROBS_trait ?g = Some row"
    using t[of True] by (cases "map_of PROBS_trait ?g") auto
  have rowb: "\<And>b. map_of row b = Some (trait_prob ?g b)"
    using t row by simp
  show ?thesis
    using g row rowb
    by (simp add: joint_step_def Let_def map_of_PROBS_gene child_genes_eq
        person_factor_def genes_factor_def)
qed

lemma foldM_joint_step:
  "foldM (\<lambda>(key, person). joint_step one_gene two_genes have_trait person) people (pj, pg) =
     Some (pj * prod_list (map (\<lambda>(key, person). person_factor person one_gene two_genes have_trait) people),
           if people = [] then pg
           else Some (genes_factor (snd (last people)) one_gene two_genes))"
  by (induction people arbitrary: pj pg) (auto simp: joint_step_eq mult.assoc)

lemma joint_probability_eq:
  "joint_probability people one_gene two_genes have_trait =
     Some (prod_list (map (\<lambda>(key, person). person_factor person one_gene two_genes have_trait) people))"
  by (simp add: joint_probability_def foldM_joint_step)

lemma prob_of_passing_bounds: "0 < prob_of_passing n" "prob_of_passing n < 1"
  by (simp_all add: prob_of_passing_def PROBS_mutation_def)

lemma child_prob_pos: "0 < fp \<Longrightarrow> fp < 1 \<Longrightarrow> 0 < mp \<Longrightarrow> mp < 1 \<Longrightarrow> 0 < child_prob g fp mp"
  by (auto simp: child_prob_def intro!: add_pos_pos mult_pos_pos)

lemma child_prob_sum: "child_prob 0 fp mp + child_prob 1 fp mp + child_prob 2 fp mp = 1"
  by (simp add: child_prob_def algebra_simps)

lemma gene_prior_pos: "0 < gene_prior g"
  by (simp add: gene_prior_def)

lemma trait_prob_pos: "0 < trait_prob g b"
  by (simp add: trait_prob_def)



lemma genes_factor_pos: "0 < genes_factor person one_gene two_genes"
  by (simp add: genes_factor_def gene_prior_pos child_prob_pos prob_of_passing_bounds)

lemma person_factor_pos: "0 < person_factor person one_gene two_genes have_trait"
  by (simp add: person_factor_def genes_factor_pos trait_prob_pos)

lemma prod_list_pos: "(\<And>x. x \<in> set xs \<Longrightarrow> 0 < (x::real)) \<Longrightarrow> 0 < prod_list xs"
  by (induction xs) auto


section \<open>Claims about the joint-probability evaluator\<close>

lemma spec_passing_eq: "n \<le> 2 \<Longrightarrow> spec_passing n = Some (prob_of_passing n)"
  by (auto simp: spec_passing_def prob_of_passing_def)

lemma spec_child_probability_eq:
  "g \<le> 2 \<Longrightarrow> spec_child_probability g fp mp = Some (child_prob g fp mp)"
  by (auto simp: spec_child_probability_def child_prob_def)

text \<open>
  Claim C2.  For every pair of parent gene counts (in particular each in 0, 1, 2), the
  three values lines 177-182 assign to \<open>probGenes\<close> for a child with 0, 1 and 2 copies
  sum to exactly 1.
\<close>

theorem child_gene_probabilities_sum:
  "\<exists>p0 p1 p2.
     child_genes probGenes 0 (prob_of_passing fatherGenes) (prob_of_passing motherGenes) = Some p0 \<and>
     child_genes probGenes 1 (prob_of_passing fatherGenes) (prob_of_passing motherGenes) = Some p1 \<and>
     child_genes probGenes 2 (prob_of_passing fatherGenes) (prob_of_passing motherGenes) = Some p2 \<and>
     p0 + p1 + p2 = 1"
proof -
  let ?f = "prob_of_passing fatherGenes" and ?m = "prob_of_passing motherGenes"
  have "child_genes probGenes 0 ?f ?m = Some (child_prob 0 ?f ?m)"
    and "child_genes probGenes 1 ?f ?m = Some (child_prob 1 ?f ?m)"
    and "child_genes probGenes 2 ?f ?m = Some (child_prob 2 ?f ?m)"
    by (simp_all add: child_genes_eq)
  moreover have "child_prob 0 ?f ?m + child_prob 1 ?f ?m + child_prob 2 ?f ?m = 1"
    by (rule child_prob_sum)
  ultimately show ?thesis by blast
qed


section \<open>Dictionary loops and the closed form of update\<close>

lemma map_of_middle:
  "k \<notin> fst ` set xs \<Longrightarrow> map_of (xs @ (k, v) # ys) k = Some v"
  by (induction xs) auto

lemma update_middle:
  "k \<notin> fst ` set xs \<Longrightarrow> AList.update k v' (xs @ (k, v) # ys) = xs @ (k, v') # ys"
  by (induction xs) auto

lemma foldM_entries_aux:
  assumes step: "\<And>k d. step k d =
      Option.bind (map_of d k) (\<lambda>v. Option.bind (g k v) (\<lambda>v'. Some (AList.update k v' d)))"
  shows "distinct (map fst (xs @ ys)) \<Longrightarrow> (\<And>k v. (k, v) \<in> set ys \<Longrightarrow> g k v = Some (f k v)) \<Longrightarrow>
         foldM step (map fst ys) (xs @ ys) = Some (xs @ map (\<lambda>(k, v). (k, f k v)) ys)"
proof (induction ys arbitrary: xs)
  case Nil
  then show ?case by simp
next
  case (Cons y ys)
  obtain k v where y: "y = (k, v)" by (cases y)
  from Cons.prems(1) have notin: "k \<notin> fst ` set xs"
    by (auto simp: y)
  have gk: "g k v = Some (f k v)" using Cons.prems(2) by (simp add: y)
  have one: "step k (xs @ (k, v) # ys) = Some ((xs @ [(k, f k v)]) @ ys)"
    unfolding step map_of_middle[OF notin] update_middle[OF notin] by (simp add: gk)
  have d: "distinct (map fst ((xs @ [(k, f k v)]) @ ys))"
    using Cons.prems(1) by (simp add: y)
  have "foldM step (map fst ys) ((xs @ [(k, f k v)]) @ ys) =
          Some ((xs @ [(k, f k v)]) @ map (\<lambda>(k, v). (k, f k v)) ys)"
    using d Cons.prems(2) by (intro Cons.IH) auto
  then show ?case
    by (simp add: y one)
qed

lemma foldM_entries:
  assumes "\<And>k d. step k d =
      Option.bind (map_of d k) (\<lambda>v. Option.bind (g k v) (\<lambda>v'. Some (AList.update k v' d)))"
    and "distinct (map fst d)"
    and "\<And>k v. (k, v) \<in> set d \<Longrightarrow> g k v = Some (f k v)"
  shows "foldM step (map fst d) d = Some (map (\<lambda>(k, v). (k, f k v)) d)"
  using foldM_entries_aux[where xs = "[]" and ys = d and step = step and g = g and f = f] assms
  by simp

lemma update_step_entry:
  "update_step one_gene two_genes have_trait p person d =
     Option.bind (map_of d person)
       (\<lambda>v. Option.bind (update_entry one_gene two_genes have_trait p person v)
          (\<lambda>v'. Some (AList.update person v' d)))"
  by (simp add: update_step_def update_entry_def Let_def)

lemma keys_210: "map fst xs = [2::nat, 1, 0] \<Longrightarrow> \<exists>a b c. xs = [(2, a), (1, b), (0, c)]"
  by (cases xs; cases "tl xs"; cases "tl (tl xs)") auto

lemma keys_TF: "map fst xs = [True, False] \<Longrightarrow> \<exists>a b. xs = [(True, a), (False, b)]"
  by (cases xs; cases "tl xs") auto

lemma update_entry_eq:
  assumes "map fst (gene_dist entry) = [2, 1, 0]" "map fst (trait_dist entry) = [True, False]"
  shows "update_entry one_gene two_genes have_trait p person entry =
           Some (add_to_entry one_gene two_genes have_trait p person entry)"
proof -
  obtain a b c where g: "gene_dist entry = [(2, a), (1, b), (0, c)]"
    using keys_210[OF assms(1)] by blast
  obtain x y where t: "trait_dist entry = [(True, x), (False, y)]"
    using keys_TF[OF assms(2)] by blast
  show ?thesis
    using get_number_genes_cases[of "Some person" one_gene two_genes]
    by (auto simp: update_entry_def add_to_entry_def g t Let_def)
qed

lemma update_closed_form:
  assumes "wf_probabilities probabilities"
  shows "update probabilities one_gene two_genes have_trait p =
           Some (map (\<lambda>(person, entry).
                   (person, add_to_entry one_gene two_genes have_trait p person entry))
                 probabilities)"
  unfolding update_def
proof (rule foldM_entries[where g = "update_entry one_gene two_genes have_trait p"])
  show "distinct (map fst probabilities)"
    using assms by (simp add: wf_probabilities_def)
  show "update_entry one_gene two_genes have_trait p k v =
          Some (add_to_entry one_gene two_genes have_trait p k v)"
    if "(k, v) \<in> set probabilities" for k v
    using assms that by (intro update_entry_eq) (auto simp: wf_probabilities_def list_all_iff)
qed (rule update_step_entry)

lemma wf_probabilities_add:
  "wf_probabilities probabilities \<Longrightarrow>
   wf_probabilities (map (\<lambda>(person, entry).
       (person, add_to_entry one_gene two_genes have_trait p person entry)) probabilities)"
  by (auto simp: wf_probabilities_def list_all_iff add_to_entry_def comp_def case_prod_unfold)

lemma map_of_map_keyed:
  "map_of (map (\<lambda>(k, v). (k, f k v)) xs) k = map_option (f k) (map_of xs k)"
  by (induction xs) auto

lemma map_of_keys_Some:
  "k \<in> set (map fst xs) \<Longrightarrow> \<exists>v. map_of xs k = Some v"
  by (induction xs) auto


lemma wf_initial_probabilities:
  "distinct (map fst people) \<Longrightarrow> wf_probabilities (initial_probabilities people)"
  by (simp add: wf_probabilities_def initial_probabilities_def list_all_iff comp_def)


section \<open>The enumeration of subsets\<close>

lemma powerset_single: "powerset [n] = [[], [n]]"
  by (simp add: powerset_def upt_rec numeral_2_eq_2)

lemma powerset_nil: "powerset [] = [[]]"
  by (simp add: powerset_def)

lemma filter_empty_subseqs: "filter (\<lambda>ys. ys = []) (subseqs xs) = [[]]"
  by (induction xs) (auto simp: Let_def filter_map comp_def)

lemma combinations_subseqs:
  "combinations xs r = filter (\<lambda>ys. length ys = r) (subseqs xs)"
proof (induction xs r rule: combinations.induct)
  case (1 xs)
  show ?case by (simp add: filter_empty_subseqs)
next
  case (2 r)
  show ?case by simp
next
  case (3 x xs r)
  then show ?case
    by (simp add: Let_def filter_map comp_def)
qed

lemma length_subseqs_le: "ys \<in> set (subseqs xs) \<Longrightarrow> length ys \<le> length xs"
  by (induction xs arbitrary: ys) (auto simp: Let_def intro: le_SucI)

lemma mset_concat_filter_upt:
  "mset (concat (map (\<lambda>r. filter (\<lambda>y. f y = r) ys) [0 ..< n])) =
     filter_mset (\<lambda>y. f y < n) (mset ys)"
proof (induction n)
  case 0
  show ?case by simp
next
  case (Suc n)
  have "filter_mset (\<lambda>y. f y < Suc n) (mset ys) =
          filter_mset (\<lambda>y. f y < n) (mset ys) + filter_mset (\<lambda>y. f y = n) (mset ys)"
    by (induction ys) auto
  with Suc show ?case by simp
qed

lemma mset_powerset: "mset (powerset xs) = mset (subseqs xs)"
proof -
  have "mset (powerset xs) =
          filter_mset (\<lambda>ys. length ys < length xs + 1) (mset (subseqs xs))"
  proof -
    have "combinations xs = (\<lambda>r. filter (\<lambda>ys. length ys = r) (subseqs xs))"
      by (rule ext) (rule combinations_subseqs)
    then show ?thesis
      unfolding powerset_def by (simp only: mset_concat_filter_upt)
  qed
  also have "\<dots> = mset (subseqs xs)"
    by (rule filter_mset_cong[where g = "\<lambda>_. True", simplified, THEN trans])
       (auto dest: length_subseqs_le simp: less_Suc_eq_le)
  finally show ?thesis .
qed

section \<open>The loops of main as one fold\<close>

lemma foldM_append: "foldM f (xs @ ys) s = Option.bind (foldM f xs s) (foldM f ys)"
  by (induction xs arbitrary: s) (auto simp: Option.bind_assoc intro: Option.bind_cong)

lemma foldM_concat: "foldM f (concat xss) = foldM (\<lambda>xs. foldM f xs) xss"
proof
  show "foldM f (concat xss) s = foldM (\<lambda>xs. foldM f xs) xss s" for s
    by (induction xss arbitrary: s) (auto simp: foldM_append intro: Option.bind_cong)
qed

lemma foldM_map: "foldM f (map g xs) = foldM (\<lambda>x. f (g x)) xs"
proof
  show "foldM f (map g xs) s = foldM (\<lambda>x. f (g x)) xs s" for s
    by (induction xs arbitrary: s) (auto intro: Option.bind_cong)
qed

lemma foldM_filter:
  "foldM f (filter P xs) = foldM (\<lambda>x s. if P x then f x s else Some s) xs"
proof
  show "foldM f (filter P xs) s = foldM (\<lambda>x s. if P x then f x s else Some s) xs s" for s
    by (induction xs arbitrary: s) (auto intro: Option.bind_cong)
qed

lemma fails_evidence_Some:
  "set names \<subseteq> fst ` set people \<Longrightarrow> \<exists>b. fails_evidence people have_trait names = Some b"
proof (induction names)
  case Nil
  show ?case by auto
next
  case (Cons person names)
  then have "person \<in> set (map fst people)" by auto
  then obtain entry where "map_of people person = Some entry"
    using map_of_keys_Some by fastforce
  with Cons show ?case by auto
qed

lemma score_and_update_fun:
  "score_and_update people (one_gene, two_genes, have_trait) =
     (\<lambda>probabilities. do {
        p \<leftarrow> joint_probability people one_gene two_genes have_trait;
        update probabilities one_gene two_genes have_trait p })"
  by (rule ext) (simp add: score_and_update_def)

lemma main_loop_flat:
  "main_loop people = accumulate people (hypotheses people) (initial_probabilities people)"
proof -
  let ?names = "map fst people"
  have body: "(do { fails \<leftarrow> fails_evidence people have_trait ?names;
                    if fails then Some probabilities else inner }) =
              (if admissible people have_trait then inner else Some probabilities)"
    for have_trait and probabilities :: probabilities and inner :: "probabilities option"
  proof -
    obtain b where "fails_evidence people have_trait ?names = Some b"
      using fails_evidence_Some[of ?names people have_trait] by auto
    then show ?thesis by (simp add: admissible_def)
  qed
  have inner:
    "foldM (\<lambda>hyp. score_and_update people
              (case hyp of (one_gene, two_genes) \<Rightarrow> (one_gene, two_genes, have_trait)))
       (gene_splits ?names) =
     foldM (\<lambda>one_gene probabilities.
         foldM (\<lambda>two_genes probabilities.
             do {
               p \<leftarrow> joint_probability people one_gene two_genes have_trait;
               update probabilities one_gene two_genes have_trait p
             })
           (powerset (set_minus ?names one_gene)) probabilities)
       (powerset ?names)"
    for have_trait
    by (simp add: gene_splits_def foldM_concat foldM_map score_and_update_fun comp_def)
  show ?thesis
    unfolding main_loop_def Let_def body accumulate_def hypotheses_def
    by (simp add: foldM_concat foldM_map foldM_filter inner cong: if_cong)
qed

lemma joint_probability_joint:
  "joint_probability people one_gene two_genes have_trait =
     Some (joint people one_gene two_genes have_trait)"
  by (simp add: joint_probability_eq joint_def)

lemma joint_pos: "0 < joint people one_gene two_genes have_trait"
  unfolding joint_def by (rule prod_list_pos) (auto simp: person_factor_pos)

lemma score_and_update_closed:
  "wf_probabilities probabilities \<Longrightarrow>
   score_and_update people (one_gene, two_genes, have_trait) probabilities =
     Some (map (\<lambda>(person, entry).
             (person, add_to_entry one_gene two_genes have_trait
                        (joint people one_gene two_genes have_trait) person entry))
           probabilities)"
  by (simp add: score_and_update_def joint_probability_joint update_closed_form)

lemma add_mass_Nil: "add_mass people [] person entry = entry"
  by (simp add: add_mass_def gene_mass_def trait_mass_def)

lemma add_mass_Cons:
  "add_mass people hyps person
     (add_to_entry one_gene two_genes have_trait (joint people one_gene two_genes have_trait)
        person entry) =
   add_mass people ((one_gene, two_genes, have_trait) # hyps) person entry"
  by (auto simp: add_mass_def add_to_entry_def gene_mass_def trait_mass_def comp_def
      case_prod_unfold)

lemma accumulate_closed:
  "wf_probabilities probabilities \<Longrightarrow>
   accumulate people hyps probabilities =
     Some (map (\<lambda>(person, entry). (person, add_mass people hyps person entry)) probabilities)"
proof (induction hyps arbitrary: probabilities)
  case Nil
  show ?case by (simp add: accumulate_def add_mass_Nil)
next
  case (Cons hyp hyps)
  obtain one_gene two_genes have_trait where hyp: "hyp = (one_gene, two_genes, have_trait)"
    by (cases hyp)
  let ?P = "map (\<lambda>(person, entry).
             (person, add_to_entry one_gene two_genes have_trait
                        (joint people one_gene two_genes have_trait) person entry))
           probabilities"
  have step: "score_and_update people hyp probabilities = Some ?P"
    unfolding hyp using Cons.prems by (rule score_and_update_closed)
  have "wf_probabilities ?P"
    using Cons.prems by (rule wf_probabilities_add)
  then have "accumulate people hyps ?P =
      Some (map (\<lambda>(person, entry). (person, add_mass people hyps person entry)) ?P)"
    by (rule Cons.IH)
  also have "map (\<lambda>(person, entry). (person, add_mass people hyps person entry)) ?P =
      map (\<lambda>(person, entry). (person, add_mass people (hyp # hyps) person entry)) probabilities"
    by (simp add: hyp comp_def case_prod_unfold add_mass_Cons)
  finally show ?case
    using step by (simp add: accumulate_def)
qed

lemma gene_mass_sum:
  "gene_mass people hyps person 2 + gene_mass people hyps person 1 +
   gene_mass people hyps person 0 = total_mass people hyps"
proof (induction hyps)
  case Nil
  show ?case by (simp add: gene_mass_def total_mass_def)
next
  case (Cons hyp hyps)
  obtain one_gene two_genes have_trait where hyp: "hyp = (one_gene, two_genes, have_trait)"
    by (cases hyp)
  from Cons show ?case
    using get_number_genes_cases[of "Some person" one_gene two_genes]
    by (auto simp: gene_mass_def total_mass_def hyp)
qed

lemma trait_mass_sum:
  "trait_mass people hyps person True + trait_mass people hyps person False =
     total_mass people hyps"
  by (induction hyps) (auto simp: trait_mass_def total_mass_def)

lemma gene_mass_nonneg: "0 \<le> gene_mass people hyps person g"
  unfolding gene_mass_def
  by (rule sum_list_nonneg) (auto simp: less_imp_le[OF joint_pos])

lemma trait_mass_nonneg: "0 \<le> trait_mass people hyps person b"
  unfolding trait_mass_def
  by (rule sum_list_nonneg) (auto simp: less_imp_le[OF joint_pos])

lemma total_mass_pos: "hyps \<noteq> [] \<Longrightarrow> 0 < total_mass people hyps"
proof (induction hyps)
  case Nil
  then show ?case by simp
next
  case (Cons hyp hyps)
  obtain one_gene two_genes have_trait where hyp: "hyp = (one_gene, two_genes, have_trait)"
    by (cases hyp)
  have "0 \<le> total_mass people hyps"
    unfolding total_mass_def
    by (rule sum_list_nonneg) (auto simp: less_imp_le[OF joint_pos])
  then show ?case
    using joint_pos[of people one_gene two_genes have_trait]
    by (simp add: total_mass_def hyp)
qed

lemma fails_evidence_eq:
  "set names \<subseteq> fst ` set people \<Longrightarrow>
   fails_evidence people have_trait names =
     Some (\<exists>person \<in> set names. \<exists>b. observed people person = Some b \<and> b \<noteq> (person \<in> set have_trait))"
proof (induction names)
  case Nil
  show ?case by simp
next
  case (Cons person names)
  then have "person \<in> set (map fst people)" by auto
  then obtain entry where e: "map_of people person = Some entry"
    using map_of_keys_Some by fastforce
  from Cons have IH: "fails_evidence people have_trait names =
     Some (\<exists>person \<in> set names. \<exists>b. observed people person = Some b \<and> b \<noteq> (person \<in> set have_trait))"
    by simp
  show ?case
    by (cases "trait entry") (auto simp: e IH observed_def)
qed

lemma admissible_iff:
  "admissible people have_trait \<longleftrightarrow>
     (\<forall>person b. observed people person = Some b \<longrightarrow> (person \<in> set have_trait) = b)"
proof -
  have keys: "person \<in> set (map fst people)" if "observed people person = Some b" for person b
  proof -
    from that obtain entry where "map_of people person = Some entry"
      by (auto simp: observed_def split: bind_splits)
    then show ?thesis by (auto dest: map_of_SomeD intro: rev_image_eqI)
  qed
  have fe: "fails_evidence people have_trait (map fst people) =
     Some (\<exists>person \<in> set (map fst people). \<exists>b. observed people person = Some b \<and> b \<noteq> (person \<in> set have_trait))"
    by (rule fails_evidence_eq) simp
  have "admissible people have_trait \<longleftrightarrow>
     \<not> (\<exists>person \<in> set (map fst people). \<exists>b. observed people person = Some b \<and> b \<noteq> (person \<in> set have_trait))"
    unfolding admissible_def fe by simp
  also have "\<dots> \<longleftrightarrow>
     (\<forall>person b. observed people person = Some b \<longrightarrow> (person \<in> set have_trait) = b)"
    using keys by blast
  finally show ?thesis .
qed

lemma filter_in_subseqs: "filter P xs \<in> set (subseqs xs)"
  by (induction xs) (auto simp: Let_def)

lemma Nil_in_subseqs: "[] \<in> set (subseqs xs)"
  by (induction xs) (auto simp: Let_def)

lemma set_powerset: "set (powerset xs) = set (subseqs xs)"
  using mset_powerset[of xs] by (rule mset_eq_setD)

lemma gene_splits_nonempty: "gene_splits names \<noteq> []"
proof -
  have "[] \<in> set (powerset names)" "[] \<in> set (powerset (set_minus names []))"
    by (simp_all add: set_powerset Nil_in_subseqs)
  then have "([], []) \<in> set (gene_splits names)"
    unfolding gene_splits_def by (auto intro!: bexI[of _ "[]"])
  then show ?thesis by auto
qed

lemma hypotheses_nonempty: "hypotheses people \<noteq> []"
proof -
  let ?names = "map fst people"
  let ?H = "filter (\<lambda>person. observed people person = Some True) ?names"
  have in_names: "person \<in> set ?names" if "observed people person = Some b" for person b
  proof -
    from that obtain entry where "map_of people person = Some entry"
      by (auto simp: observed_def split: bind_splits)
    then show ?thesis by (auto dest: map_of_SomeD intro: rev_image_eqI)
  qed
  have "admissible people ?H"
    unfolding admissible_iff using in_names by auto
  moreover have "?H \<in> set (powerset ?names)"
    by (simp only: set_powerset filter_in_subseqs)
  ultimately have H: "?H \<in> set (filter (admissible people) (powerset ?names))"
    by simp
  obtain s where s: "s \<in> set (gene_splits ?names)"
    using gene_splits_nonempty[of ?names] by (cases "gene_splits ?names") auto
  obtain a b where ab: "s = (a, b)" by (cases s)
  have "(a, b, ?H) \<in> set (hypotheses people)"
    unfolding hypotheses_def using H s ab by (auto intro!: bexI[of _ ?H] rev_image_eqI)
  then show ?thesis by auto
qed

lemma hypotheses_admissible:
  "(one_gene, two_genes, have_trait) \<in> set (hypotheses people) \<Longrightarrow> admissible people have_trait"
  by (auto simp: hypotheses_def)

lemma normalize_step_entry:
  "normalize_step person d =
     Option.bind (map_of d person)
       (\<lambda>v. Option.bind (normalize_entry v) (\<lambda>v'. Some (AList.update person v' d)))"
  by (simp add: normalize_step_def normalize_entry_def Let_def)

lemma norm_dict_ok:
  "sum_list (map snd p) \<noteq> 0 \<Longrightarrow>
   norm_dict p = Some (map (\<lambda>(a, b). (a, b / sum_list (map snd p))) p)"
  by (simp add: norm_dict_def)

lemma normalize_entry_ok:
  "sum_list (map snd (gene_dist entry)) \<noteq> 0 \<Longrightarrow> sum_list (map snd (trait_dist entry)) \<noteq> 0 \<Longrightarrow>
   normalize_entry entry = Some (scale_entry entry)"
  by (simp add: normalize_entry_def norm_dict_ok scale_entry_def)

lemma normalize_closed:
  assumes "distinct (map fst probabilities)"
    and "\<And>person entry. (person, entry) \<in> set probabilities \<Longrightarrow>
           sum_list (map snd (gene_dist entry)) \<noteq> 0 \<and> sum_list (map snd (trait_dist entry)) \<noteq> 0"
  shows "normalize probabilities =
           Some (map (\<lambda>(person, entry). (person, scale_entry entry)) probabilities)"
  unfolding normalize_def
proof (rule foldM_entries[where g = "\<lambda>person. normalize_entry"])
  show "normalize_entry v = Some (scale_entry v)" if "(k, v) \<in> set probabilities" for k v
    using assms(2)[OF that] by (simp add: normalize_entry_ok)
qed (rule normalize_step_entry, rule assms(1))

lemma accumulate_initial:
  assumes "distinct (map fst people)"
  shows "accumulate people hyps (initial_probabilities people) =
           Some (map (\<lambda>person. (person, mass_entry people hyps person)) (map fst people))"
proof -
  have "accumulate people hyps (initial_probabilities people) =
      Some (map (\<lambda>(person, entry). (person, add_mass people hyps person entry))
              (initial_probabilities people))"
    using assms by (intro accumulate_closed wf_initial_probabilities)
  then show ?thesis
    by (simp add: initial_probabilities_def comp_def add_mass_def mass_entry_def)
qed

lemma main_loop_closed:
  assumes "distinct (map fst people)"
  shows "main_loop people =
           Some (map (\<lambda>person. (person, mass_entry people (hypotheses people) person))
                   (map fst people))"
  unfolding main_loop_flat using assms by (rule accumulate_initial)

lemma mass_entry_totals:
  "sum_list (map snd (gene_dist (mass_entry people hyps person))) = total_mass people hyps"
  "sum_list (map snd (trait_dist (mass_entry people hyps person))) = total_mass people hyps"
  using gene_mass_sum[of people hyps person] trait_mass_sum[of people hyps person]
  by (simp_all add: mass_entry_def)

lemma trait_mass_zero:
  "\<forall>hyp \<in> set hyps. (person \<in> set (snd (snd hyp))) \<noteq> b \<Longrightarrow>
   trait_mass people hyps person b = 0"
  by (induction hyps) (auto simp: trait_mass_def)

lemma trait_bucket_mass:
  assumes "person \<in> set names"
  shows "trait_bucket (map (\<lambda>person. (person, mass_entry people hyps person)) names) person b =
           Some (trait_mass people hyps person b)"
proof -
  have "map_of (map (\<lambda>person. (person, mass_entry people hyps person)) names) person =
          Some (mass_entry people hyps person)"
    using assms by (induction names) auto
  then show ?thesis
    by (cases b) (simp_all add: trait_bucket_def mass_entry_def)
qed

lemma observed_in_keys:
  "observed people person = Some b \<Longrightarrow> person \<in> set (map fst people)"
proof -
  assume "observed people person = Some b"
  then obtain entry where "map_of people person = Some entry"
    by (auto simp: observed_def split: bind_splits)
  then show ?thesis by (auto dest: map_of_SomeD intro: rev_image_eqI)
qed


lemma normalize_main_loop:
  assumes "distinct (map fst people)"
  shows "normalize (map (\<lambda>person. (person, mass_entry people (hypotheses people) person))
                      (map fst people)) =
           Some (map (\<lambda>person. (person, scale_entry (mass_entry people (hypotheses people) person)))
                   (map fst people))"
proof -
  let ?acc = "map (\<lambda>person. (person, mass_entry people (hypotheses people) person)) (map fst people)"
  have pos: "0 < total_mass people (hypotheses people)"
    by (rule total_mass_pos) (rule hypotheses_nonempty)
  have "normalize ?acc = Some (map (\<lambda>(person, entry). (person, scale_entry entry)) ?acc)"
  proof (rule normalize_closed)
    show "distinct (map fst ?acc)" using assms by (simp add: comp_def)
    show "sum_list (map snd (gene_dist entry)) \<noteq> 0 \<and> sum_list (map snd (trait_dist entry)) \<noteq> 0"
      if "(person, entry) \<in> set ?acc" for person entry
    proof -
      from that have "entry = mass_entry people (hypotheses people) person" by auto
      then show ?thesis using pos by (simp add: mass_entry_totals)
    qed
  qed
  then show ?thesis by (simp add: comp_def)
qed


lemma map_of_tabulated:
  "k \<in> set ks \<Longrightarrow> map_of (map (\<lambda>k. (k, f k)) ks) k = Some (f k)"
  by (induction ks) auto

lemma sum_list_scaled:
  "sum_list (map snd (map (\<lambda>(a, b). (a, b / c)) p)) = sum_list (map snd p) / (c::real)"
  by (induction p) (auto simp: add_divide_distrib)

lemma scale_entry_sums:
  "sum_list (map snd (gene_dist entry)) \<noteq> 0 \<Longrightarrow>
     sum_list (map snd (gene_dist (scale_entry entry))) = 1"
  "sum_list (map snd (trait_dist entry)) \<noteq> 0 \<Longrightarrow>
     sum_list (map snd (trait_dist (scale_entry entry))) = 1"
  by (simp_all add: scale_entry_def sum_list_scaled del: map_map)

lemma scaled_nonneg:
  "0 < (c::real) \<Longrightarrow> \<forall>v \<in> set (map snd p). 0 \<le> v \<Longrightarrow>
   \<forall>v \<in> set (map snd (map (\<lambda>(a, b). (a, b / c)) p)). 0 \<le> v"
  by (induction p) auto

lemma mass_entry_nonneg:
  "\<forall>v \<in> set (map snd (gene_dist (mass_entry people hyps person))). 0 \<le> v"
  "\<forall>v \<in> set (map snd (trait_dist (mass_entry people hyps person))). 0 \<le> v"
  by (simp_all add: mass_entry_def gene_mass_nonneg trait_mass_nonneg)

lemma scale_mass_entry:
  assumes "0 < total_mass people hyps"
  shows "sum_list (map snd (gene_dist (scale_entry (mass_entry people hyps person)))) = 1"
    and "sum_list (map snd (trait_dist (scale_entry (mass_entry people hyps person)))) = 1"
    and "\<forall>v \<in> set (map snd (gene_dist (scale_entry (mass_entry people hyps person)))). 0 \<le> v"
    and "\<forall>v \<in> set (map snd (trait_dist (scale_entry (mass_entry people hyps person)))). 0 \<le> v"
proof -
  let ?e = "mass_entry people hyps person"
  have g: "sum_list (map snd (gene_dist ?e)) = total_mass people hyps"
    and t: "sum_list (map snd (trait_dist ?e)) = total_mass people hyps"
    by (rule mass_entry_totals)+
  show "sum_list (map snd (gene_dist (scale_entry ?e))) = 1"
    using assms g by (intro scale_entry_sums) simp
  show "sum_list (map snd (trait_dist (scale_entry ?e))) = 1"
    using assms t by (intro scale_entry_sums) simp
  have "\<forall>v \<in> set (map snd (map (\<lambda>(a, b). (a, b / total_mass people hyps)) (gene_dist ?e))). 0 \<le> v"
    using assms mass_entry_nonneg(1) by (rule scaled_nonneg)
  then show "\<forall>v \<in> set (map snd (gene_dist (scale_entry ?e))). 0 \<le> v"
    by (simp only: scale_entry_def g dists.simps)
  have "\<forall>v \<in> set (map snd (map (\<lambda>(a, b). (a, b / total_mass people hyps)) (trait_dist ?e))). 0 \<le> v"
    using assms mass_entry_nonneg(2) by (rule scaled_nonneg)
  then show "\<forall>v \<in> set (map snd (trait_dist (scale_entry ?e))). 0 \<le> v"
    by (simp only: scale_entry_def t dists.simps)
qed


section \<open>What the enumeration visits\<close>

lemma powerset_sets:
  "set ` set (powerset xs) = Pow (set xs)"
  by (simp add: set_powerset subseqs_powset)

lemma powerset_distinct_sets:
  assumes "distinct xs"
  shows "distinct (map set (powerset xs))"
proof -
  have "mset (map set (powerset xs)) = mset (map set (subseqs xs))"
    by (simp add: mset_powerset)
  then have "distinct (map set (powerset xs)) \<longleftrightarrow> distinct (map set (subseqs xs))"
    by (rule mset_eq_imp_distinct_iff)
  then show ?thesis
    using distinct_set_subseqs[OF assms] by blast
qed

lemma length_powerset: "length (powerset xs) = 2 ^ length xs"
  using mset_eq_length[OF mset_powerset[of xs]] by (simp add: length_subseqs)

lemma set_set_minus: "set (set_minus xs ys) = set xs - set ys"
  by (auto simp: set_minus_def)

lemma distinct_set_minus: "distinct xs \<Longrightarrow> distinct (set_minus xs ys)"
  by (simp add: set_minus_def)

lemma distinct_pairs:
  assumes "distinct (map p as)" and "\<And>a. a \<in> set as \<Longrightarrow> distinct (map q (f a))"
  shows "distinct (concat (map (\<lambda>a. map (\<lambda>b. (p a, q b)) (f a)) as))"
  using assms
proof (induction as)
  case Nil
  show ?case by simp
next
  case (Cons a as)
  have "distinct (map (Pair (p a)) (map q (f a)))"
    using Cons.prems(2)[of a] by (simp add: distinct_map inj_on_def)
  then have first: "distinct (map (\<lambda>b. (p a, q b)) (f a))"
    by (simp add: comp_def)
  have rest: "distinct (concat (map (\<lambda>a. map (\<lambda>b. (p a, q b)) (f a)) as))"
    using Cons.prems by (intro Cons.IH) auto
  have disj: "set (map (\<lambda>b. (p a, q b)) (f a)) \<inter>
              set (concat (map (\<lambda>a. map (\<lambda>b. (p a, q b)) (f a)) as)) = {}"
    using Cons.prems(1) by auto
  from first rest disj show ?case by simp
qed

lemma map_sets_gene_splits:
  "map (\<lambda>(one_gene, two_genes). (set one_gene, set two_genes)) (gene_splits names) =
     concat (map (\<lambda>one_gene. map (\<lambda>two_genes. (set one_gene, set two_genes))
                              (powerset (set_minus names one_gene)))
               (powerset names))"
  by (simp add: gene_splits_def map_concat comp_def)

lemma gene_splits_distinct_sets:
  assumes "distinct names"
  shows "distinct (map (\<lambda>(one_gene, two_genes). (set one_gene, set two_genes)) (gene_splits names))"
  unfolding map_sets_gene_splits
  using assms
  by (intro distinct_pairs powerset_distinct_sets distinct_set_minus)

lemma gene_splits_sets:
  "set (map (\<lambda>(one_gene, two_genes). (set one_gene, set two_genes)) (gene_splits names)) =
     {(A, B). A \<subseteq> set names \<and> B \<subseteq> set names - A}"
proof -
  have "set (map (\<lambda>(one_gene, two_genes). (set one_gene, set two_genes)) (gene_splits names)) =
          (\<Union>one_gene \<in> set (powerset names).
              Pair (set one_gene) ` (set ` set (powerset (set_minus names one_gene))))"
    unfolding map_sets_gene_splits by (auto simp: image_iff)
  also have "\<dots> = (\<Union>one_gene \<in> set (powerset names).
              Pair (set one_gene) ` Pow (set names - set one_gene))"
    by (simp only: powerset_sets set_set_minus)
  also have "\<dots> = (\<Union>A \<in> set ` set (powerset names). Pair A ` Pow (set names - A))"
    by auto
  also have "\<dots> = (\<Union>A \<in> Pow (set names). Pair A ` Pow (set names - A))"
    by (simp only: powerset_sets)
  also have "\<dots> = {(A, B). A \<subseteq> set names \<and> B \<subseteq> set names - A}"
    by auto
  finally show ?thesis .
qed

lemma subseqs_subset: "ys \<in> set (subseqs xs) \<Longrightarrow> set ys \<subseteq> set xs"
  using subseqs_powset[of xs] by blast

lemma sum_pow_subseqs:
  "distinct xs \<Longrightarrow>
   (\<Sum>ys\<leftarrow>subseqs xs. (2::nat) ^ length (filter (\<lambda>x. x \<notin> set ys) xs)) = 3 ^ length xs"
proof (induction xs)
  case Nil
  show ?case by simp
next
  case (Cons x xs)
  let ?S = "\<Sum>ys\<leftarrow>subseqs xs. (2::nat) ^ length (filter (\<lambda>z. z \<notin> set ys) xs)"
  have x: "x \<notin> set xs" and d: "distinct xs" using Cons.prems by auto
  have with_x: "filter (\<lambda>z. z \<notin> set (x # ys)) (x # xs) = filter (\<lambda>z. z \<notin> set ys) xs" for ys
    using x by (auto intro: filter_cong)
  have without_x: "filter (\<lambda>z. z \<notin> set ys) (x # xs) = x # filter (\<lambda>z. z \<notin> set ys) xs"
    if "ys \<in> set (subseqs xs)" for ys
    using subseqs_subset[OF that] x by auto
  have a: "(\<Sum>ys\<leftarrow>map ((#) x) (subseqs xs).
              (2::nat) ^ length (filter (\<lambda>z. z \<notin> set ys) (x # xs))) = ?S"
    by (simp only: map_map comp_def with_x)
  have "(\<Sum>ys\<leftarrow>subseqs xs. (2::nat) ^ length (filter (\<lambda>z. z \<notin> set ys) (x # xs))) =
        (\<Sum>ys\<leftarrow>subseqs xs. 2 * (2::nat) ^ length (filter (\<lambda>z. z \<notin> set ys) xs))"
  proof (rule arg_cong[where f = sum_list], rule map_cong[OF refl])
    fix ys assume ys: "ys \<in> set (subseqs xs)"
    show "(2::nat) ^ length (filter (\<lambda>z. z \<notin> set ys) (x # xs)) =
          2 * 2 ^ length (filter (\<lambda>z. z \<notin> set ys) xs)"
      unfolding without_x[OF ys] by simp
  qed
  also have "\<dots> = 2 * ?S"
    by (simp add: sum_list_const_mult)
  finally have b: "(\<Sum>ys\<leftarrow>subseqs xs.
      (2::nat) ^ length (filter (\<lambda>z. z \<notin> set ys) (x # xs))) = 2 * ?S" .
  have "(\<Sum>ys\<leftarrow>subseqs (x # xs). (2::nat) ^ length (filter (\<lambda>z. z \<notin> set ys) (x # xs))) =
          ?S + 2 * ?S"
    using a b by (simp add: Let_def)
  also have "\<dots> = 3 ^ length (x # xs)"
    using Cons.IH[OF d] by simp
  finally show ?case .
qed

lemma sum_list_powerset:
  fixes f :: "'a list \<Rightarrow> 'b::comm_monoid_add"
  shows "sum_list (map f (powerset xs)) = sum_list (map f (subseqs xs))"
proof -
  have "mset (map f (powerset xs)) = mset (map f (subseqs xs))"
    by (simp add: mset_powerset)
  then have "sum_mset (mset (map f (powerset xs))) = sum_mset (mset (map f (subseqs xs)))"
    by (rule arg_cong)
  then show ?thesis
    by (simp only: sum_mset_sum_list)
qed

lemma length_gene_splits:
  assumes "distinct names"
  shows "length (gene_splits names) = 3 ^ length names"
proof -
  have "length (gene_splits names) =
          (\<Sum>one_gene\<leftarrow>powerset names. (2::nat) ^ length (set_minus names one_gene))"
    by (simp add: gene_splits_def length_concat comp_def length_powerset)
  also have "\<dots> = (\<Sum>ys\<leftarrow>subseqs names. (2::nat) ^ length (filter (\<lambda>x. x \<notin> set ys) names))"
    unfolding set_minus_def by (rule sum_list_powerset)
  also have "\<dots> = 3 ^ length names"
    using assms by (rule sum_pow_subseqs)
  finally show ?thesis .
qed

lemma length_filter_distinct_image:
  "distinct (map h xs) \<Longrightarrow> c \<in> set (map h xs) \<Longrightarrow> length (filter (\<lambda>x. h x = c) xs) = 1"
proof (induction xs)
  case Nil
  then show ?case by simp
next
  case (Cons x xs)
  show ?case
  proof (cases "h x = c")
    case True
    with Cons.prems(1) have "\<forall>y \<in> set xs. h y \<noteq> c"
      by (auto simp: image_iff)
    then have "filter (\<lambda>y. h y = c) xs = []"
      by (simp add: filter_empty_conv)
    with True show ?thesis by simp
  next
    case False
    with Cons show ?thesis by auto
  qed
qed

lemma gene_assignment_unique:
  assumes "distinct names" and "\<forall>x \<in> set names. g x \<le> 2"
  shows "length (filter (\<lambda>(one_gene, two_genes).
                   \<forall>x \<in> set names. get_number_genes (Some x) one_gene two_genes = g x)
           (gene_splits names)) = 1"
proof -
  let ?h = "\<lambda>(one_gene, two_genes). (set one_gene, set two_genes)"
  let ?A = "{x \<in> set names. g x = 1}" and ?B = "{x \<in> set names. g x = 2}"
  have same: "(\<forall>x \<in> set names. get_number_genes (Some x) one_gene two_genes = g x) \<longleftrightarrow>
              ?h (one_gene, two_genes) = (?A, ?B)"
    if "(one_gene, two_genes) \<in> set (gene_splits names)" for one_gene two_genes
  proof -
    from that have "?h (one_gene, two_genes) \<in> ?h ` set (gene_splits names)"
      by (rule imageI)
    then have "?h (one_gene, two_genes) \<in> set (map ?h (gene_splits names))"
      by (simp only: set_map)
    then have sub: "set one_gene \<subseteq> set names" "set two_genes \<subseteq> set names - set one_gene"
      unfolding gene_splits_sets by auto
    have val: "get_number_genes (Some x) one_gene two_genes =
                 (if x \<in> set one_gene then 1 else if x \<in> set two_genes then 2 else 0)" for x
      by (auto simp: get_number_genes_def)
    show ?thesis
    proof
      assume L: "\<forall>x \<in> set names. get_number_genes (Some x) one_gene two_genes = g x"
      have "set one_gene = ?A"
        using sub L unfolding val by (auto split: if_splits)
      moreover have "set two_genes = ?B"
        using sub L unfolding val by (auto split: if_splits)
      ultimately show "?h (one_gene, two_genes) = (?A, ?B)" by simp
    next
      assume R: "?h (one_gene, two_genes) = (?A, ?B)"
      then have o: "set one_gene = ?A" and t: "set two_genes = ?B" by auto
      show "\<forall>x \<in> set names. get_number_genes (Some x) one_gene two_genes = g x"
      proof
        fix x assume x: "x \<in> set names"
        with assms(2) have "g x = 0 \<or> g x = 1 \<or> g x = 2" by force
        with x show "get_number_genes (Some x) one_gene two_genes = g x"
          unfolding val o t by auto
      qed
    qed
  qed
  have "filter (\<lambda>(one_gene, two_genes).
                   \<forall>x \<in> set names. get_number_genes (Some x) one_gene two_genes = g x)
           (gene_splits names) =
        filter (\<lambda>s. ?h s = (?A, ?B)) (gene_splits names)"
  proof (rule filter_cong[OF refl])
    fix s assume s: "s \<in> set (gene_splits names)"
    obtain a b where ab: "s = (a, b)" by (cases s)
    show "(case s of (one_gene, two_genes) \<Rightarrow>
             \<forall>x \<in> set names. get_number_genes (Some x) one_gene two_genes = g x) =
          (?h s = (?A, ?B))"
      using same[of a b] s by (simp add: ab)
  qed
  moreover have "length (filter (\<lambda>s. ?h s = (?A, ?B)) (gene_splits names)) = 1"
  proof (rule length_filter_distinct_image)
    show "distinct (map ?h (gene_splits names))"
      using assms(1) by (rule gene_splits_distinct_sets)
    show "(?A, ?B) \<in> set (map ?h (gene_splits names))"
      unfolding gene_splits_sets by auto
  qed
  ultimately show ?thesis by simp
qed

lemma observed_records:
  assumes "distinct (map fst people)"
  shows "observed people key = Some b \<longleftrightarrow>
           (\<exists>person. (key, person) \<in> set people \<and> trait person = Some b)"
proof
  assume "observed people key = Some b"
  then obtain person where "map_of people key = Some person" "trait person = Some b"
    by (auto simp: observed_def split: bind_splits)
  then show "\<exists>person. (key, person) \<in> set people \<and> trait person = Some b"
    using map_of_SomeD[of people key person] by auto
next
  assume "\<exists>person. (key, person) \<in> set people \<and> trait person = Some b"
  then obtain person where p: "(key, person) \<in> set people" "trait person = Some b" by auto
  from assms p(1) have "map_of people key = Some person"
    by (rule map_of_is_SomeI)
  with p(2) show "observed people key = Some b" by (simp add: observed_def)
qed

lemma admissible_records:
  assumes "distinct (map fst people)"
  shows "admissible people have_trait \<longleftrightarrow>
           (\<forall>(key, person) \<in> set people.
              \<forall>b. trait person = Some b \<longrightarrow> (key \<in> set have_trait) = b)"
proof
  assume "admissible people have_trait"
  then have L: "\<And>key b. observed people key = Some b \<Longrightarrow> (key \<in> set have_trait) = b"
    by (simp add: admissible_iff)
  show "\<forall>(key, person) \<in> set people.
          \<forall>b. trait person = Some b \<longrightarrow> (key \<in> set have_trait) = b"
  proof (intro ballI, unfold split_paired_all prod.case, intro allI impI)
    fix key person b
    assume "(key, person) \<in> set people" "trait person = Some b"
    then have "observed people key = Some b"
      unfolding observed_records[OF assms] by (intro exI[of _ person] conjI)
    then show "(key \<in> set have_trait) = b" by (rule L)
  qed
next
  assume R: "\<forall>(key, person) \<in> set people.
          \<forall>b. trait person = Some b \<longrightarrow> (key \<in> set have_trait) = b"
  show "admissible people have_trait"
    unfolding admissible_iff
  proof (intro allI impI)
    fix key b assume "observed people key = Some b"
    then obtain person where p: "(key, person) \<in> set people" "trait person = Some b"
      unfolding observed_records[OF assms] by (elim exE conjE)
    from bspec[OF R p(1)]
    have "\<forall>b. trait person = Some b \<longrightarrow> (key \<in> set have_trait) = b"
      by (simp only: prod.case)
    with p(2) show "(key \<in> set have_trait) = b" by (elim allE impE)
  qed
qed

lemma distinct_powerset:
  assumes "distinct xs"
  shows "distinct (powerset xs)"
  using powerset_distinct_sets[OF assms] unfolding distinct_map by (rule conjunct1)

lemma distinct_gene_splits:
  assumes "distinct names"
  shows "distinct (gene_splits names)"
  using gene_splits_distinct_sets[OF assms] unfolding distinct_map by (rule conjunct1)

lemma hypotheses_as_pairs:
  "hypotheses people =
     map (\<lambda>(have_trait, one_gene, two_genes). (one_gene, two_genes, have_trait))
       (concat (map (\<lambda>have_trait. map (\<lambda>s. (id have_trait, id s)) (gene_splits (map fst people)))
                  (filter (admissible people) (powerset (map fst people)))))"
  by (simp add: hypotheses_def map_concat comp_def case_prod_unfold)

lemma distinct_hypotheses:
  assumes "distinct (map fst people)"
  shows "distinct (hypotheses people)"
proof -
  have "distinct (concat (map (\<lambda>have_trait. map (\<lambda>s. (id have_trait, id s))
                                 (gene_splits (map fst people)))
                  (filter (admissible people) (powerset (map fst people)))))"
    using assms by (intro distinct_pairs) (simp_all add: distinct_powerset distinct_gene_splits)
  moreover have "inj (\<lambda>(have_trait :: string list, one_gene :: string list, two_genes :: string list).
                        (one_gene, two_genes, have_trait))"
    by (auto simp: inj_on_def)
  ultimately show ?thesis
    unfolding hypotheses_as_pairs by (simp add: distinct_map inj_on_subset[OF _ subset_UNIV])
qed

lemma hypotheses_member:
  assumes "distinct (map fst people)"
  shows "(one_gene, two_genes, have_trait) \<in> set (hypotheses people) \<longleftrightarrow>
           (one_gene, two_genes) \<in> set (gene_splits (map fst people)) \<and>
           have_trait \<in> set (powerset (map fst people)) \<and>
           (\<forall>(key, person) \<in> set people.
              \<forall>b. trait person = Some b \<longrightarrow> (key \<in> set have_trait) = b)"
  unfolding admissible_records[OF assms, symmetric]
  by (auto simp: hypotheses_def)

section \<open>Total probability over the enumerated hypotheses\<close>





































section \<open>The evaluator on a population\<close>

lemma get_number_genes_assignment:
  "get_number_genes (Some q) one_gene two_genes = gene_assignment one_gene two_genes q"
  by (auto simp: get_number_genes_def gene_assignment_def)

lemma gene_assignment_fun:
  "(\<lambda>q. get_number_genes (Some q) one_gene two_genes) = gene_assignment one_gene two_genes"
  by (rule ext) (rule get_number_genes_assignment)

lemma spec_gene_probability_genes:
  assumes "(mother person = None) = (father person = None)"
  shows "spec_gene_probability person (\<lambda>q. get_number_genes (Some q) one_gene two_genes) =
           Some (genes_factor person one_gene two_genes)"
proof (cases "mother person")
  case None
  with assms have "father person = None" by simp
  with None show ?thesis
    by (simp add: spec_gene_probability_def genes_factor_def map_of_PROBS_gene
        get_number_genes_le2)
next
  case (Some m)
  with assms obtain f where "father person = Some f" by auto
  with Some show ?thesis
    by (simp add: spec_gene_probability_def genes_factor_def
        spec_passing_eq spec_child_probability_eq get_number_genes_le2)
qed

lemma spec_gene_probability_eq:
  assumes "(mother person = None) = (father person = None)"
  shows "spec_gene_probability person (gene_assignment one_gene two_genes) =
           Some (genes_factor person one_gene two_genes)"
  using spec_gene_probability_genes[OF assms] unfolding gene_assignment_fun .



section \<open>Claims about the main loop and the normalizer\<close>

text \<open>
  Claim C5.  Let \<open>person\<close> have the observed trait \<open>b\<close>.  Every candidate set
  \<open>have_trait\<close> that disagrees with \<open>b\<close> on \<open>person\<close> is skipped: no hypothesis with it
  is scored.  The loops of \<open>main\<close> are the fold of score-and-update over the hypotheses
  that remain, and after every number \<open>n\<close> of updates, so also when the loops end and
  before \<open>normalize\<close> runs, the person's trait bucket opposite to \<open>b\<close> holds exactly 0.
\<close>

theorem observed_trait_opposite_bucket_zero:
  assumes "distinct (map fst people)" and "observed people person = Some b"
  shows "(\<forall>have_trait \<in> set (powerset (map fst people)).
            (person \<in> set have_trait) \<noteq> b \<longrightarrow>
            (\<forall>one_gene two_genes. (one_gene, two_genes, have_trait) \<notin> set (hypotheses people))) \<and>
         main_loop people =
           accumulate people (hypotheses people) (initial_probabilities people) \<and>
         (\<forall>n. \<exists>acc.
            accumulate people (take n (hypotheses people)) (initial_probabilities people) = Some acc \<and>
            trait_bucket acc person (\<not> b) = Some 0) \<and>
         (\<exists>acc. main_loop people = Some acc \<and> trait_bucket acc person (\<not> b) = Some 0)"
proof -
  have agree: "(person \<in> set have_trait) = b"
    if "(one_gene, two_genes, have_trait) \<in> set (hypotheses people)"
    for one_gene two_genes have_trait
    using hypotheses_admissible[OF that] assms(2) by (simp add: admissible_iff)
  have skip: "\<forall>have_trait \<in> set (powerset (map fst people)).
            (person \<in> set have_trait) \<noteq> b \<longrightarrow>
            (\<forall>one_gene two_genes. (one_gene, two_genes, have_trait) \<notin> set (hypotheses people))"
    using agree by blast
  have key: "person \<in> set (map fst people)"
    using assms(2) by (rule observed_in_keys)
  have zero: "trait_mass people hyps person (\<not> b) = 0"
    if "set hyps \<subseteq> set (hypotheses people)" for hyps
  proof (rule trait_mass_zero, rule ballI)
    fix hyp
    assume "hyp \<in> set hyps"
    with that have "(fst hyp, fst (snd hyp), snd (snd hyp)) \<in> set (hypotheses people)"
      by auto
    then have "(person \<in> set (snd (snd hyp))) = b" by (rule agree)
    then show "(person \<in> set (snd (snd hyp))) \<noteq> (\<not> b)" by simp
  qed
  have pre: "\<exists>acc. accumulate people hyps (initial_probabilities people) = Some acc \<and>
            trait_bucket acc person (\<not> b) = Some 0"
    if "set hyps \<subseteq> set (hypotheses people)" for hyps
    using accumulate_initial[OF assms(1), of hyps] trait_bucket_mass[OF key, of people hyps "\<not> b"]
      zero[OF that] by simp
  have steps: "\<forall>n. \<exists>acc.
            accumulate people (take n (hypotheses people)) (initial_probabilities people) = Some acc \<and>
            trait_bucket acc person (\<not> b) = Some 0"
    by (intro allI pre set_take_subset)
  have final: "\<exists>acc. main_loop people = Some acc \<and> trait_bucket acc person (\<not> b) = Some 0"
    unfolding main_loop_flat by (rule pre) simp
  show ?thesis
    using skip main_loop_flat steps final by blast
qed

theorem observed_trait_opposite_bucket_zero_witness:
  "distinct (map fst [(''a'', \<lparr>name = ''a'', mother = None, father = None, trait = Some True\<rparr>)]) \<and>
   observed [(''a'', \<lparr>name = ''a'', mother = None, father = None, trait = Some True\<rparr>)] ''a''
     = Some True \<and>
   (\<exists>acc. main_loop [(''a'', \<lparr>name = ''a'', mother = None, father = None, trait = Some True\<rparr>)]
            = Some acc \<and>
          trait_bucket acc ''a'' False = Some 0)"
proof -
  let ?P = "[(''a'', \<lparr>name = ''a'', mother = None, father = None, trait = Some True\<rparr>)]"
  have d: "distinct (map fst ?P)" by simp
  have ob: "observed ?P ''a'' = Some True" by (simp add: observed_def)
  from observed_trait_opposite_bucket_zero [OF d ob]
  have "\<exists>acc. main_loop ?P = Some acc \<and> trait_bucket acc ''a'' (\<not> True) = Some 0"
    by blast
  with d ob show ?thesis by simp
qed


text \<open>
  Claim C4.  \<open>main\<close> runs \<open>normalize\<close> once, on the table the loops leave.  In the
  result every person of the population has a gene-count distribution whose three
  values sum to 1 and a trait distribution whose two values sum to 1, all values are
  non-negative, and each distribution is the accumulated one divided by one positive
  number, so the proportions within it are unchanged.
\<close>

theorem normalized_distributions:
  assumes "distinct (map fst people)"
  shows "\<exists>acc final.
           main_loop people = Some acc \<and> normalize acc = Some final \<and> main people = Some final \<and>
           map fst final = map fst people \<and>
           (\<forall>(person, entry) \<in> set final.
              sum_list (map snd (gene_dist entry)) = 1 \<and>
              sum_list (map snd (trait_dist entry)) = 1 \<and>
              (\<forall>v \<in> set (map snd (gene_dist entry)). 0 \<le> v) \<and>
              (\<forall>v \<in> set (map snd (trait_dist entry)). 0 \<le> v)) \<and>
           (\<forall>person \<in> set (map fst people). \<exists>c d. 0 < c \<and> 0 < d \<and>
              (\<forall>g. gene_bucket final person g =
                     map_option (\<lambda>v. v / c) (gene_bucket acc person g)) \<and>
              (\<forall>b. trait_bucket final person b =
                     map_option (\<lambda>v. v / d) (trait_bucket acc person b)))"
proof -
  let ?hyps = "hypotheses people"
  let ?acc = "map (\<lambda>person. (person, mass_entry people ?hyps person)) (map fst people)"
  let ?final = "map (\<lambda>person. (person, scale_entry (mass_entry people ?hyps person)))
                  (map fst people)"
  have pos: "0 < total_mass people ?hyps"
    by (rule total_mass_pos) (rule hypotheses_nonempty)
  have acc: "main_loop people = Some ?acc"
    using assms by (rule main_loop_closed)
  have fin: "normalize ?acc = Some ?final"
    using assms by (rule normalize_main_loop)
  have main: "main people = Some ?final"
    by (simp add: main_def acc fin del: map_map)
  have keys: "map fst ?final = map fst people"
    by (simp add: comp_def)
  have sums: "\<forall>(person, entry) \<in> set ?final.
              sum_list (map snd (gene_dist entry)) = 1 \<and>
              sum_list (map snd (trait_dist entry)) = 1 \<and>
              (\<forall>v \<in> set (map snd (gene_dist entry)). 0 \<le> v) \<and>
              (\<forall>v \<in> set (map snd (trait_dist entry)). 0 \<le> v)"
    using scale_mass_entry[OF pos] by auto
  have ratio: "\<exists>c d. 0 < c \<and> 0 < d \<and>
              (\<forall>g. gene_bucket ?final person g =
                     map_option (\<lambda>v. v / c) (gene_bucket ?acc person g)) \<and>
              (\<forall>b. trait_bucket ?final person b =
                     map_option (\<lambda>v. v / d) (trait_bucket ?acc person b))"
    if mem: "person \<in> set (map fst people)" for person
  proof -
    let ?e = "mass_entry people ?hyps person"
    have a: "map_of ?acc person = Some ?e"
      using mem by (rule map_of_tabulated)
    have f: "map_of ?final person = Some (scale_entry ?e)"
      using mem by (rule map_of_tabulated)
    have g: "gene_bucket ?final person g =
               map_option (\<lambda>v. v / total_mass people ?hyps) (gene_bucket ?acc person g)" for g
      unfolding gene_bucket_def a f
      by (simp add: scale_entry_def mass_entry_totals map_of_map_keyed)
    have t: "trait_bucket ?final person b =
               map_option (\<lambda>v. v / total_mass people ?hyps) (trait_bucket ?acc person b)" for b
      unfolding trait_bucket_def a f
      by (simp add: scale_entry_def mass_entry_totals map_of_map_keyed)
    from pos g t show ?thesis by blast
  qed
  show ?thesis
    using acc fin main keys sums ratio by blast
qed

theorem normalized_distributions_witness:
  "distinct (map fst [(''a'', \<lparr>name = ''a'', mother = None, father = None, trait = None\<rparr>)]) \<and>
   (\<exists>final. main [(''a'', \<lparr>name = ''a'', mother = None, father = None, trait = None\<rparr>)]
              = Some final \<and>
      map fst final = [''a''])"
proof -
  let ?P = "[(''a'', \<lparr>name = ''a'', mother = None, father = None, trait = None\<rparr>)]"
  have d: "distinct (map fst ?P)" by simp
  from normalized_distributions [OF d]
  have "\<exists>final. main ?P = Some final \<and> map fst final = map fst ?P" by blast
  with d show ?thesis by simp
qed

text \<open>
  Claim C6.  For every population (a dictionary, so with distinct keys; in particular
  every non-empty structurally valid one) each joint probability the evaluator returns
  is strictly positive; when the loops end the table has an entry for every person of
  the population, every person's accumulated gene-count total and trait total is
  strictly positive, and \<open>normalize\<close> succeeds: no division by a zero total occurs.
\<close>

theorem normalizer_never_divides_by_zero:
  assumes "distinct (map fst people)"
  shows "(\<forall>one_gene two_genes have_trait.
            \<exists>p. joint_probability people one_gene two_genes have_trait = Some p \<and> 0 < p) \<and>
         (\<exists>acc final.
            main_loop people = Some acc \<and>
            map fst acc = map fst people \<and>
            (\<forall>person \<in> set (map fst people).
               \<exists>entry. map_of acc person = Some entry \<and>
                 0 < sum_list (map snd (gene_dist entry)) \<and>
                 0 < sum_list (map snd (trait_dist entry))) \<and>
            (\<forall>(person, entry) \<in> set acc.
               0 < sum_list (map snd (gene_dist entry)) \<and>
               0 < sum_list (map snd (trait_dist entry))) \<and>
            normalize acc = Some final \<and>
            main people = Some final)"
proof -
  let ?acc = "map (\<lambda>person. (person, mass_entry people (hypotheses people) person)) (map fst people)"
  have jp: "\<forall>one_gene two_genes have_trait.
            \<exists>p. joint_probability people one_gene two_genes have_trait = Some p \<and> 0 < p"
    by (simp add: joint_probability_joint joint_pos)
  have pos: "0 < total_mass people (hypotheses people)"
    by (rule total_mass_pos) (rule hypotheses_nonempty)
  have acc: "main_loop people = Some ?acc"
    using assms by (rule main_loop_closed)
  have keys: "map fst ?acc = map fst people"
    by (simp add: comp_def)
  have each: "\<forall>person \<in> set (map fst people).
               \<exists>entry. map_of ?acc person = Some entry \<and>
                 0 < sum_list (map snd (gene_dist entry)) \<and>
                 0 < sum_list (map snd (trait_dist entry))"
  proof
    fix person assume "person \<in> set (map fst people)"
    then have "map_of ?acc person = Some (mass_entry people (hypotheses people) person)"
      by (rule map_of_tabulated)
    with pos show "\<exists>entry. map_of ?acc person = Some entry \<and>
                 0 < sum_list (map snd (gene_dist entry)) \<and>
                 0 < sum_list (map snd (trait_dist entry))"
      by (simp add: mass_entry_totals)
  qed
  have tot: "\<forall>(person, entry) \<in> set ?acc.
               0 < sum_list (map snd (gene_dist entry)) \<and>
               0 < sum_list (map snd (trait_dist entry))"
    using pos by (auto simp: mass_entry_totals)
  obtain final where fin: "normalize ?acc = Some final"
    using normalize_main_loop[OF assms] by blast
  then have m: "main people = Some final"
    by (simp add: main_def acc)
  show ?thesis
    by (intro conjI jp exI[of _ ?acc] exI[of _ final] acc keys each tot fin m)
qed

theorem normalizer_never_divides_by_zero_witness:
  "(\<exists>p. joint_probability
          [(''a'', \<lparr>name = ''a'', mother = None, father = None, trait = Some True\<rparr>)]
          [''a''] [] [''a''] = Some p \<and> 0 < p) \<and>
   (\<exists>acc final entry.
      main_loop [(''a'', \<lparr>name = ''a'', mother = None, father = None, trait = Some True\<rparr>)]
        = Some acc \<and>
      map fst acc = [''a''] \<and>
      map_of acc ''a'' = Some entry \<and>
      0 < sum_list (map snd (gene_dist entry)) \<and>
      0 < sum_list (map snd (trait_dist entry)) \<and>
      main [(''a'', \<lparr>name = ''a'', mother = None, father = None, trait = Some True\<rparr>)]
        = Some final)"
proof -
  let ?P = "[(''a'', \<lparr>name = ''a'', mother = None, father = None, trait = Some True\<rparr>)]"
  have d: "distinct (map fst ?P)" by simp
  from normalizer_never_divides_by_zero [OF d]
  obtain acc final where
    jp: "\<exists>p. joint_probability ?P [''a''] [] [''a''] = Some p \<and> 0 < p"
    and a: "main_loop ?P = Some acc" "map fst acc = map fst ?P"
    and e: "\<forall>person \<in> set (map fst ?P).
               \<exists>entry. map_of acc person = Some entry \<and>
                 0 < sum_list (map snd (gene_dist entry)) \<and>
                 0 < sum_list (map snd (trait_dist entry))"
    and m: "main ?P = Some final"
    by blast
  from e obtain entry where "map_of acc ''a'' = Some entry"
    "0 < sum_list (map snd (gene_dist entry))" "0 < sum_list (map snd (trait_dist entry))"
    by auto
  with jp a m show ?thesis by auto
qed

section \<open>Claim about the hypothesis enumerator\<close>

text \<open>
  Claim C7.  For a population of \<open>n\<close> people, \<open>powerset\<close> of the names lists every subset
  of the population exactly once (\<open>2 ^ n\<close> candidates for \<open>have_trait\<close>); the two inner
  loops visit every pair of a subset \<open>one_gene\<close> and a subset \<open>two_genes\<close> of its
  complement exactly once (\<open>3 ^ n\<close> pairs), and every assignment of a count 0, 1 or 2 to
  each person is the assignment of exactly one visited pair.  A candidate passes the
  evidence test exactly when it agrees with every observed trait; the hypotheses scored
  are, each exactly once, those pairs under each candidate that passes, and \<open>main\<close>'s
  loops are the fold over them.
\<close>

theorem enumerator_visits_every_hypothesis_once:
  assumes "distinct (map fst people)"
  shows "distinct (map set (powerset (map fst people))) \<and>
         set (map set (powerset (map fst people))) = Pow (set (map fst people)) \<and>
         length (powerset (map fst people)) = 2 ^ length people \<and>
         distinct (map (\<lambda>(one_gene, two_genes). (set one_gene, set two_genes))
                     (gene_splits (map fst people))) \<and>
         set (map (\<lambda>(one_gene, two_genes). (set one_gene, set two_genes))
                (gene_splits (map fst people))) =
           {(A, B). A \<subseteq> set (map fst people) \<and> B \<subseteq> set (map fst people) - A} \<and>
         length (gene_splits (map fst people)) = 3 ^ length people \<and>
         (\<forall>g. (\<forall>x \<in> set (map fst people). g x \<le> 2) \<longrightarrow>
              length (filter (\<lambda>(one_gene, two_genes).
                        \<forall>x \<in> set (map fst people).
                          get_number_genes (Some x) one_gene two_genes = g x)
                      (gene_splits (map fst people))) = 1) \<and>
         (\<forall>have_trait.
            admissible people have_trait \<longleftrightarrow>
              (\<forall>(key, person) \<in> set people.
                 \<forall>b. trait person = Some b \<longrightarrow> (key \<in> set have_trait) = b)) \<and>
         hypotheses people =
           concat (map (\<lambda>have_trait.
                     map (\<lambda>(one_gene, two_genes). (one_gene, two_genes, have_trait))
                       (gene_splits (map fst people)))
                   (filter (admissible people) (powerset (map fst people)))) \<and>
         distinct (hypotheses people) \<and>
         (\<forall>one_gene two_genes have_trait.
            (one_gene, two_genes, have_trait) \<in> set (hypotheses people) \<longleftrightarrow>
              (one_gene, two_genes) \<in> set (gene_splits (map fst people)) \<and>
              have_trait \<in> set (powerset (map fst people)) \<and>
              (\<forall>(key, person) \<in> set people.
                 \<forall>b. trait person = Some b \<longrightarrow> (key \<in> set have_trait) = b)) \<and>
         main_loop people =
           accumulate people (hypotheses people) (initial_probabilities people)"
proof -
  let ?names = "map fst people"
  have a: "distinct (map set (powerset ?names))"
    using assms by (rule powerset_distinct_sets)
  have b: "set (map set (powerset ?names)) = Pow (set ?names)"
    by (simp only: set_map powerset_sets)
  have c: "length (powerset ?names) = 2 ^ length people"
    by (simp add: length_powerset)
  have d: "distinct (map (\<lambda>(one_gene, two_genes). (set one_gene, set two_genes))
                     (gene_splits ?names))"
    using assms by (rule gene_splits_distinct_sets)
  have e: "length (gene_splits ?names) = 3 ^ length people"
    using length_gene_splits[OF assms] by simp
  have f: "\<forall>g. (\<forall>x \<in> set ?names. g x \<le> 2) \<longrightarrow>
              length (filter (\<lambda>(one_gene, two_genes).
                        \<forall>x \<in> set ?names. get_number_genes (Some x) one_gene two_genes = g x)
                      (gene_splits ?names)) = 1"
    using gene_assignment_unique[OF assms] by blast
  have g: "\<forall>have_trait.
            admissible people have_trait \<longleftrightarrow>
              (\<forall>(key, person) \<in> set people.
                 \<forall>b. trait person = Some b \<longrightarrow> (key \<in> set have_trait) = b)"
    by (intro allI admissible_records[OF assms])
  have h: "distinct (hypotheses people)"
    using assms by (rule distinct_hypotheses)
  have i: "\<forall>one_gene two_genes have_trait.
            (one_gene, two_genes, have_trait) \<in> set (hypotheses people) \<longleftrightarrow>
              (one_gene, two_genes) \<in> set (gene_splits ?names) \<and>
              have_trait \<in> set (powerset ?names) \<and>
              (\<forall>(key, person) \<in> set people.
                 \<forall>b. trait person = Some b \<longrightarrow> (key \<in> set have_trait) = b)"
    by (intro allI hypotheses_member[OF assms])
  show ?thesis
    by (intro conjI a b c d gene_splits_sets e f g hypotheses_def h i main_loop_flat)
qed

theorem enumerator_visits_every_hypothesis_once_witness:
  "length (powerset [''a'', ''b'']) = 4 \<and>
   length (gene_splits [''a'', ''b'']) = 9 \<and>
   admissible
     [(''a'', \<lparr>name = ''a'', mother = None, father = None, trait = None\<rparr>),
      (''b'', \<lparr>name = ''b'', mother = None, father = None, trait = Some True\<rparr>)] [''b''] \<and>
   \<not> admissible
     [(''a'', \<lparr>name = ''a'', mother = None, father = None, trait = None\<rparr>),
      (''b'', \<lparr>name = ''b'', mother = None, father = None, trait = Some True\<rparr>)] [''a'']"
proof -
  let ?P = "[(''a'', \<lparr>name = ''a'', mother = None, father = None, trait = None\<rparr>),
      (''b'', \<lparr>name = ''b'', mother = None, father = None, trait = Some True\<rparr>)]"
  have d: "distinct (map fst ?P)" by simp
  note t = enumerator_visits_every_hypothesis_once [OF d]
  from t have l: "length (powerset (map fst ?P)) = 2 ^ length ?P"
    by (elim conjE)
  from t have m: "length (gene_splits (map fst ?P)) = 3 ^ length ?P"
    by (elim conjE)
  from t have adm: "\<forall>have_trait.
            admissible ?P have_trait \<longleftrightarrow>
              (\<forall>(key, person) \<in> set ?P.
                 \<forall>b. trait person = Some b \<longrightarrow> (key \<in> set have_trait) = b)"
    by (elim conjE)
  have "admissible ?P [''b'']"
    unfolding adm[rule_format] by auto
  moreover have "\<not> admissible ?P [''a'']"
    unfolding adm[rule_format] by auto
  ultimately show ?thesis using l m by simp
qed

section \<open>Claim about the total probability\<close>




section \<open>Claims about the accumulator\<close>






section \<open>Claims about the gene-count probability in the evaluator\<close>

text \<open>
  Claim C1.  Let every person of the population have no recorded parents or two.  Then
  for every person, one iteration of the loop of \<open>joint_probability\<close> computes as the
  person's gene-count probability (the variable \<open>probGenes\<close>, returned in the second
  component of the state) exactly the value the specification describes: the prior
  table entry of the assigned gene count without parents, and with two parents the
  transmission formula over the parents' passing probabilities, the parents' counts
  being read from the same \<open>one_gene\<close> and \<open>two_genes\<close> (the gene assignment of the
  hypothesis, \<open>gene_assignment\<close>).  The evaluator \<open>joint_probability\<close> returns the
  product, over the population, of that value times the trait probability.
\<close>

theorem joint_probability_gene_probability:
  assumes "\<forall>(key, person) \<in> set people. (mother person = None) = (father person = None)"
  shows "\<exists>G.
           (\<forall>(key, person) \<in> set people.
              spec_gene_probability person (gene_assignment one_gene two_genes) =
                Some (G person) \<and>
              (\<forall>probJoint probGenes.
                 joint_step one_gene two_genes have_trait person (probJoint, probGenes) =
                   Some (probJoint *
                           (G person *
                            trait_prob (gene_assignment one_gene two_genes (name person))
                              (name person \<in> set have_trait)),
                         Some (G person)))) \<and>
           joint_probability people one_gene two_genes have_trait =
             Some (\<Prod>(key, person)\<leftarrow>people.
                     G person *
                     trait_prob (gene_assignment one_gene two_genes (name person))
                       (name person \<in> set have_trait))"
proof (intro exI[of _ "\<lambda>person. genes_factor person one_gene two_genes"] conjI)
  show "\<forall>(key, person) \<in> set people.
          spec_gene_probability person (gene_assignment one_gene two_genes) =
            Some (genes_factor person one_gene two_genes) \<and>
          (\<forall>probJoint probGenes.
             joint_step one_gene two_genes have_trait person (probJoint, probGenes) =
               Some (probJoint *
                       (genes_factor person one_gene two_genes *
                        trait_prob (gene_assignment one_gene two_genes (name person))
                          (name person \<in> set have_trait)),
                     Some (genes_factor person one_gene two_genes)))"
    using assms
    by (auto simp: spec_gene_probability_eq joint_step_eq person_factor_def
        get_number_genes_assignment)
  show "joint_probability people one_gene two_genes have_trait =
          Some (\<Prod>(key, person)\<leftarrow>people.
                  genes_factor person one_gene two_genes *
                  trait_prob (gene_assignment one_gene two_genes (name person))
                    (name person \<in> set have_trait))"
    by (simp add: joint_probability_eq person_factor_def get_number_genes_assignment)
qed

theorem joint_probability_gene_probability_witness:
  "joint_probability
     [(''Harry'', \<lparr>name = ''Harry'', mother = Some ''Lily'', father = Some ''James'', trait = None\<rparr>),
      (''James'', \<lparr>name = ''James'', mother = None, father = None, trait = Some True\<rparr>),
      (''Lily'', \<lparr>name = ''Lily'', mother = None, father = None, trait = Some False\<rparr>)]
     [''Harry''] [''James''] [''James''] =
   Some (0.9802 * 0.44 * (0.01 * 0.65 * (0.96 * 0.99)))"
proof -
  let ?H = "\<lparr>name = ''Harry'', mother = Some ''Lily'', father = Some ''James'', trait = None\<rparr>"
  let ?J = "\<lparr>name = ''James'', mother = None, father = None, trait = Some True\<rparr>"
  let ?L = "\<lparr>name = ''Lily'', mother = None, father = None, trait = Some False\<rparr>"
  let ?P = "[(''Harry'', ?H), (''James'', ?J), (''Lily'', ?L)]"
  let ?g = "gene_assignment [''Harry''] [''James'']"
  have h: "\<forall>(key, person) \<in> set ?P. (mother person = None) = (father person = None)"
    by simp
  from joint_probability_gene_probability [OF h, of "[''Harry'']" "[''James'']" "[''James'']"]
  obtain G where
    s: "\<forall>(key, person) \<in> set ?P. spec_gene_probability person ?g = Some (G person)"
    and j: "joint_probability ?P [''Harry''] [''James''] [''James''] =
             Some (\<Prod>(key, person)\<leftarrow>?P.
                     G person * trait_prob (?g (name person)) (name person \<in> set [''James'']))"
    by blast
  have sH: "spec_gene_probability ?H ?g = Some 0.9802"
    and sJ: "spec_gene_probability ?J ?g = Some 0.01"
    and sL: "spec_gene_probability ?L ?g = Some 0.96"
    by (simp_all add: spec_gene_probability_def spec_passing_def spec_child_probability_def
        gene_assignment_def PROBS_mutation_def PROBS_gene_def)
  from s have "spec_gene_probability ?H ?g = Some (G ?H)"
    and "spec_gene_probability ?J ?g = Some (G ?J)"
    and "spec_gene_probability ?L ?g = Some (G ?L)"
    by simp_all
  then have G: "G ?H = 0.9802" "G ?J = 0.01" "G ?L = 0.96"
    unfolding sH sJ sL by simp_all
  have t: "trait_prob (?g ''Harry'') False = 0.44"
    "trait_prob (?g ''James'') True = 0.65"
    "trait_prob (?g ''Lily'') False = 0.99"
    by (simp_all add: trait_prob_def gene_assignment_def)
  from j show ?thesis
    by (simp add: G t)
qed




section \<open>The single-person scenario\<close>

text \<open>
  Claim C8, as amended.  For the population of one person with no parents and unknown
  trait, \<open>main\<close> returns the unconditional prior 0.01, 0.03, 0.96 as the gene-count
  posterior, and as the trait posterior the prior-weighted marginal
  0.96 * 0.01 + 0.03 * 0.56 + 0.01 * 0.65, which is 0.0329 (so 0.9671 for the absent
  trait), not 0.0365.
\<close>

theorem single_person_posterior:
  "main [(n, \<lparr>name = n, mother = None, father = None, trait = None\<rparr>)] =
     Some [(n, \<lparr>gene_dist = [(2, 0.01), (1, 0.03), (0, 0.96)],
                 trait_dist = [(True, 0.96 * 0.01 + 0.03 * 0.56 + 0.01 * 0.65),
                               (False, 0.9671)]\<rparr>)] \<and>
   0.96 * 0.01 + 0.03 * 0.56 + 0.01 * 0.65 = (0.0329 :: real)"
  by (simp add: main_def main_loop_def initial_probabilities_def powerset_single powerset_nil
      set_minus_def joint_probability_def joint_step_def get_number_genes_def
      PROBS_gene_def PROBS_trait_def update_def update_step_def
      normalize_def normalize_step_def norm_dict_def)

text \<open>
  The claim as the specification states it, with 0.0365 and 0.9635 for the trait
  posterior, fails on the population of the one person \<open>a\<close>.
\<close>

theorem single_person_posterior_counterexample:
  "main [(''a'', \<lparr>name = ''a'', mother = None, father = None, trait = None\<rparr>)] \<noteq>
     Some [(''a'', \<lparr>gene_dist = [(2, 0.01), (1, 0.03), (0, 0.96)],
                     trait_dist = [(True, 0.0365), (False, 0.9635)]\<rparr>)]"
  by (simp add: main_def main_loop_def initial_probabilities_def powerset_single powerset_nil
      set_minus_def joint_probability_def joint_step_def get_number_genes_def
      PROBS_gene_def PROBS_trait_def update_def update_step_def
      normalize_def normalize_step_def norm_dict_def)

end
